theory Spec2Isabelle
  imports Complex_Main "HOL-Library.AList"
begin

section \<open>Numbers, strings and dates of the JavaScript runtime\<close>

text \<open>
  Byte counts are JavaScript numbers that hold integers; they are modelled as \<open>int\<close>
  (an integer below \<open>2 ^ 53\<close> in magnitude is a double, and sums and differences of such
  integers are exact). Instants are milliseconds since the epoch: the code stores them as
  ISO strings (\<open>toISOString\<close>) and reads them back with \<open>new Date\<close>, which is the identity
  on the millisecond count. Quotients and products are doubles: the exact result rounded
  to 53 significant bits, ties to even. A double is given by its value, a rational.
\<close>

type_synonym instant = int

definition digitChar :: "nat \<Rightarrow> char" where
  "digitChar d = ''0123456789'' ! d"

fun showNat :: "nat \<Rightarrow> string" where
  "showNat n = (if n < 10 then [digitChar n] else showNat (n div 10) @ [digitChar (n mod 10)])"

declare showNat.simps [simp del]

definition showInt :: "int \<Rightarrow> string" where
  "showInt i = (if i < 0 then ''-'' @ showNat (nat (- i)) else showNat (nat i))"

subsection \<open>Double-precision arithmetic\<close>

definition roundHalfEven :: "rat \<Rightarrow> int" where
  "roundHalfEven y =
     (let f = \<lfloor>y\<rfloor>;
          d = y - of_int f
      in if d < 1 / 2 then f else if 1 / 2 < d then f + 1 else if even f then f else f + 1)"

text \<open>Scaling a positive number by powers of two until it lies in \<open>[2 ^ 52, 2 ^ 53)\<close>;
  the first argument bounds the number of steps, the third is the scale taken out.\<close>

fun normalise :: "nat \<Rightarrow> rat \<Rightarrow> rat \<Rightarrow> rat \<times> rat" where
  "normalise 0 m s = (m, s)"
| "normalise (Suc n) m s =
     (if m < 2 ^ 52 then normalise n (2 * m) (s / 2)
      else if 2 ^ 53 \<le> m then normalise n (m / 2) (2 * s)
      else (m, s))"

text \<open>The double nearest to \<open>x\<close>, for \<open>x\<close> in the range of normal doubles (the 2200 steps
  cover it). Results that overflow or are subnormal do not arise from byte counts.\<close>

definition roundDouble :: "rat \<Rightarrow> rat" where
  "roundDouble x =
     (if x = 0 then 0
      else (let (m, s) = normalise 2200 \<bar>x\<bar> 1;
                r = of_int (roundHalfEven m) * s
            in if x < 0 then - r else r))"

text \<open>The magnitudes those steps cover.\<close>

definition normalRange :: "rat \<Rightarrow> bool" where
  "normalRange x = (2 ^ 52 / 2 ^ 2200 \<le> \<bar>x\<bar> \<and> \<bar>x\<bar> < 2 ^ 53 * 2 ^ 2200)"

text \<open>\<open>a / b\<close> and \<open>a * b\<close> on doubles.\<close>

definition fdiv :: "rat \<Rightarrow> rat \<Rightarrow> rat" where
  "fdiv a b = roundDouble (a / b)"

definition fmul :: "rat \<Rightarrow> rat \<Rightarrow> rat" where
  "fmul a b = roundDouble (a * b)"

subsection \<open>Printing numbers\<close>

text \<open>\<open>x.toFixed(2)\<close> for a double \<open>x\<close> below \<open>10 ^ 21\<close> in magnitude, as the number of
  hundredths it prints: the one nearest to the value of \<open>x\<close>, the larger in magnitude when
  two are equally near.\<close>

definition toFixed2 :: "rat \<Rightarrow> int" where
  "toFixed2 x = (if x < 0 then - \<lfloor>- x * 100 + 1 / 2\<rfloor> else \<lfloor>x * 100 + 1 / 2\<rfloor>)"

text \<open>\<open>parseFloat(x.toFixed(2))\<close> as JSON prints it: the decimal with two places.\<close>

definition parseFixed2 :: "rat \<Rightarrow> rat" where
  "parseFixed2 x = of_int (toFixed2 x) / 100"

text \<open>\<open>parseFloat(x.toFixed(2)) + ''\<close> for \<open>x \<ge> 0\<close>: the number printed without trailing
  zeros of the fraction.\<close>

definition showHundredths :: "nat \<Rightarrow> string" where
  "showHundredths h =
     showNat (h div 100) @
     (if h mod 100 = 0 then ''''
      else ''.'' @ [digitChar (h mod 100 div 10)] @
           (if h mod 10 = 0 then '''' else [digitChar (h mod 10)]))"

subsection \<open>formatBytes\<close>

definition sizes :: "string list" where
  "sizes = [''Bytes'', ''KB'', ''MB'', ''GB'', ''TB'', ''PB'', ''EB'', ''ZB'', ''YB'']"

text \<open>\<open>sizes[i]\<close> printed in a string concatenation: \<open>undefined\<close> outside the array.\<close>

definition sizeName :: "int \<Rightarrow> string" where
  "sizeName i = (if 0 \<le> i \<and> i < int (length sizes) then sizes ! nat i else ''undefined'')"

text \<open>\<open>Math.pow(1024, i)\<close> for an integer \<open>i\<close>: a power of two, exact.\<close>

definition pow1024 :: "int \<Rightarrow> rat" where
  "pow1024 i = (if 0 \<le> i then 1024 ^ nat i else 1 / 1024 ^ nat (- i))"

text \<open>
  \<open>Math.log\<close> is the runtime's: the parameter \<open>lg\<close> gives the double it returns for a
  positive double, taken to be positive at 1024. The index is
  \<open>Math.floor(Math.log(bytes) / Math.log(1024))\<close>. A negative argument makes \<open>Math.log\<close>
  and everything after it \<open>NaN\<close>.
\<close>

definition unitIndex :: "(rat \<Rightarrow> rat) \<Rightarrow> int \<Rightarrow> int" where
  "unitIndex lg bytes = \<lfloor>fdiv (lg (of_int bytes)) (lg 1024)\<rfloor>"

definition formatBytes :: "(rat \<Rightarrow> rat) \<Rightarrow> int \<Rightarrow> string" where
  "formatBytes lg bytes =
     (if bytes = 0 then ''0 Bytes''
      else if bytes < 0 then ''NaN undefined''
      else let i = unitIndex lg bytes
           in showHundredths (nat (toFixed2 (fdiv (of_int bytes) (pow1024 i)))) @ '' '' @
              sizeName i)"

subsection \<open>Dates in the host time zone\<close>

text \<open>The host's offset from UTC in milliseconds (taken as constant) is a parameter
  \<open>tz\<close>. \<open>setMinutes(0, 0, 0)\<close> zeroes the local minutes, seconds and milliseconds.\<close>

definition setMinutes0 :: "int \<Rightarrow> instant \<Rightarrow> instant" where
  "setMinutes0 tz t = t - (t + tz) mod 3600000"

text \<open>The calendar getters of \<open>Date\<close>: day count to year, month (1..12) and day.\<close>

definition civilFromDays :: "int \<Rightarrow> int \<times> int \<times> int" where
  "civilFromDays z0 =
     (let z = z0 + 719468;
          era = z div 146097;
          doe = z - era * 146097;
          yoe = (doe - doe div 1460 + doe div 36524 - doe div 146096) div 365;
          doy = doe - (365 * yoe + yoe div 4 - yoe div 100);
          mp = (5 * doy + 2) div 153;
          d = doy - (153 * mp + 2) div 5 + 1;
          m = (if mp < 10 then mp + 3 else mp - 9);
          y = yoe + era * 400 + (if m \<le> 2 then 1 else 0)
      in (y, m, d))"

definition getFullYear :: "int \<Rightarrow> instant \<Rightarrow> int" where
  "getFullYear tz t = fst (civilFromDays ((t + tz) div 86400000))"

definition getMonth :: "int \<Rightarrow> instant \<Rightarrow> int" where
  "getMonth tz t = fst (snd (civilFromDays ((t + tz) div 86400000))) - 1"

definition getDate :: "int \<Rightarrow> instant \<Rightarrow> int" where
  "getDate tz t = snd (snd (civilFromDays ((t + tz) div 86400000)))"

definition getHours :: "int \<Rightarrow> instant \<Rightarrow> int" where
  "getHours tz t = (t + tz) mod 86400000 div 3600000"

definition padStart2 :: "string \<Rightarrow> string" where
  "padStart2 s = replicate (2 - length s) CHR ''0'' @ s"

definition sliceLast2 :: "string \<Rightarrow> string" where
  "sliceLast2 s = drop (length s - 2) s"

definition formatDateToLocal :: "int \<Rightarrow> instant option \<Rightarrow> string option" where
  "formatDateToLocal tz isoDate =
     (case isoDate of
        None \<Rightarrow> None
      | Some date \<Rightarrow>
          (let day = padStart2 (showInt (getDate tz date));
               month = padStart2 (showInt (getMonth tz date + 1));
               year = sliceLast2 (showInt (getFullYear tz date));
               hours0 = getHours tz date;
               ampm = (if hours0 \<ge> 12 then ''PM'' else ''AM'');
               hours1 = hours0 mod 12;
               hours = (if hours1 \<noteq> 0 then hours1 else 12)
           in Some (day @ ''/'' @ month @ ''/'' @ year @ '' '' @ showInt hours @ ampm)))"

section \<open>Program state\<close>

text \<open>
  A JavaScript \<open>Map\<close> keeps its keys in insertion order and \<open>set\<close> on a key that is
  present updates the value in place: an association list with \<open>AList.update\<close>.
\<close>

record CacheEntry =
  bytes :: int
  count :: "int option"
  timestamp :: instant
  calculationDurationMs :: int
  error :: "string option"

record Cache =
  data :: "(string \<times> CacheEntry) list"
  lastUpdated :: "instant option"
  updateInProgress :: bool
  updateStartTime :: "instant option"

text \<open>One element of a size history, the object \<open>{timestamp, bytes}\<close>.\<close>

record Sample =
  sampleTimestamp :: instant
  sampleBytes :: int

text \<open>The module's five global objects, and \<open>tick\<close>: the number of calls to the file
  system and to external commands made so far, which indexes what the outside world
  answers next.\<close>

record State =
  remoteCache :: Cache
  localCache :: Cache
  remoteCacheTemp :: "(string \<times> CacheEntry) list"
  localCacheTemp :: "(string \<times> CacheEntry) list"
  localSizeHistory :: "(string \<times> Sample list) list"
  tick :: nat

definition emptyCache :: Cache where
  "emptyCache = \<lparr>data = [], lastUpdated = None, updateInProgress = False, updateStartTime = None\<rparr>"

definition initialState :: State where
  "initialState =
     \<lparr>remoteCache = emptyCache, localCache = emptyCache, remoteCacheTemp = [],
      localCacheTemp = [], localSizeHistory = [], tick = 0\<rparr>"

text \<open>What \<open>getRcloneSize\<close> resolves to: the error object, or the parsed JSON output.\<close>

record SizeInfo =
  infoError :: "string option"
  infoBytes :: "int option"
  infoCount :: "int option"

text \<open>
  The outside world: the runtime's \<open>Math.log\<close> and, by call number, the clock, the
  host time zone, \<open>fs.existsSync\<close>,
  the directory traversal of \<open>getDirectorySize\<close> (\<open>Inl\<close> is the message of the error it
  rejects with), the \<open>rclone listremotes\<close> command (\<open>Inl\<close> the exec error, \<open>Inr\<close> its
  standard output) and \<open>getRcloneSize\<close> (\<open>None\<close> when the output parses to \<open>null\<close>,
  whose property read throws).
\<close>

record World =
  mathLog :: "rat \<Rightarrow> rat"
  clockAt :: "nat \<Rightarrow> instant"
  tzOffset :: int
  existsSync :: "nat \<Rightarrow> string \<Rightarrow> bool"
  getDirectorySize :: "nat \<Rightarrow> string \<Rightarrow> string + int"
  execListRemotes :: "nat \<Rightarrow> string + string"
  getRcloneSize :: "nat \<Rightarrow> string \<Rightarrow> SizeInfo option"

definition now :: "World \<Rightarrow> State \<Rightarrow> instant" where
  "now w s = clockAt w (tick s)"

definition bump :: "State \<Rightarrow> State" where
  "bump s = s\<lparr>tick := Suc (tick s)\<rparr>"

definition has :: "(string \<times> 'v) list \<Rightarrow> string \<Rightarrow> bool" where
  "has m k = (map_of m k \<noteq> None)"

subsection \<open>getAvailableRemotes\<close>

text \<open>A string is a list of code units below 256. Among those, \<open>trim\<close> removes tab,
  line feed, vertical tab, form feed, carriage return, space and the no-break space.\<close>

definition isWhiteSpace :: "char \<Rightarrow> bool" where
  "isWhiteSpace c =
     (c = CHR '' '' \<or> c = CHR 0x09 \<or> c = CHR 0x0A \<or> c = CHR 0x0B \<or> c = CHR 0x0C \<or> c = CHR 0x0D \<or>
      c = CHR 0xA0)"

definition trim :: "string \<Rightarrow> string" where
  "trim s = rev (dropWhile isWhiteSpace (rev (dropWhile isWhiteSpace s)))"

fun splitOn :: "char \<Rightarrow> string \<Rightarrow> string list" where
  "splitOn c [] = [[]]"
| "splitOn c (x # xs) =
     (if x = c then [] # splitOn c xs
      else (case splitOn c xs of [] \<Rightarrow> [[x]] | l # ls \<Rightarrow> (x # l) # ls))"

text \<open>\<open>replace(/:$/, '')\<close>\<close>

definition dropTrailingColon :: "string \<Rightarrow> string" where
  "dropTrailingColon s = (if s \<noteq> [] \<and> last s = CHR '':'' then butlast s else s)"

definition parseRemotes :: "string \<Rightarrow> string list" where
  "parseRemotes stdout =
     map (\<lambda>remote. dropTrailingColon (trim remote))
       (filter (\<lambda>line. length (trim line) > 0) (splitOn CHR 0x0A stdout))"

definition getAvailableRemotes :: "World \<Rightarrow> nat \<Rightarrow> string + string list" where
  "getAvailableRemotes w n =
     (case execListRemotes w n of Inl e \<Rightarrow> Inl e | Inr stdout \<Rightarrow> Inr (parseRemotes stdout))"

subsection \<open>updateRemoteCache\<close>

definition truthyString :: "string option \<Rightarrow> bool" where
  "truthyString x = (case x of None \<Rightarrow> False | Some s \<Rightarrow> s \<noteq> [])"

definition orZero :: "int option \<Rightarrow> int" where
  "orZero x = (case x of None \<Rightarrow> 0 | Some n \<Rightarrow> n)"

text \<open>
  What the loop body does once \<open>getRcloneSize\<close> has resolved to \<open>sizeInfo\<close>, for the
  remote whose probe started at \<open>remoteStartTime\<close>: a result without error is stored in the
  map that \<open>remoteCacheTemp.data\<close> is bound to at that moment; a probe that reports an
  error, and a throw inside the inner \<open>try\<close>, are logged and leave the map as it is.
\<close>

definition storeProbe :: "World \<Rightarrow> string \<Rightarrow> instant \<Rightarrow> SizeInfo option \<Rightarrow> State \<Rightarrow> State" where
  "storeProbe w remote remoteStartTime sizeInfo s =
     (let remotePath = remote @ '':'';
          remoteEndTime = now w s;
          durationMs = remoteEndTime - remoteStartTime
      in case sizeInfo of
           None \<Rightarrow> s
         | Some info \<Rightarrow>
             if \<not> truthyString (infoError info)
             then s\<lparr>remoteCacheTemp :=
                    AList.update remotePath
                      \<lparr>bytes = orZero (infoBytes info), count = Some (orZero (infoCount info)),
                       timestamp = now w s, calculationDurationMs = durationMs,
                       error = None\<rparr>
                      (remoteCacheTemp s)\<rparr>
             else s)"

text \<open>The \<open>for\<close> loop over \<open>remotes\<close> when nothing else runs between its awaits.\<close>

fun remoteLoop :: "World \<Rightarrow> string list \<Rightarrow> State \<Rightarrow> State" where
  "remoteLoop w [] s = s"
| "remoteLoop w (remote # rest) s =
     (let remotePath = remote @ '':'';
          remoteStartTime = now w s;
          sizeInfo = getRcloneSize w (tick s) remotePath
      in remoteLoop w rest (storeProbe w remote remoteStartTime sizeInfo (bump s)))"

text \<open>The \<open>try\<close> block with its \<open>catch\<close>, which only logs, when nothing else runs between
  its awaits: the state when the block is left, and the error caught, if any.\<close>

definition remoteTry :: "World \<Rightarrow> State \<Rightarrow> string option \<times> State" where
  "remoteTry w s =
     (let s0 = s\<lparr>remoteCacheTemp := data (remoteCache s)\<rparr>
      in case getAvailableRemotes w (tick s0) of
           Inl e \<Rightarrow> (Some e, bump s0)
         | Inr remotes \<Rightarrow>
             (let s1 = remoteLoop w remotes (bump s0);
                  endTime = now w s1
              in (None, s1\<lparr>remoteCache := (remoteCache s1)\<lparr>lastUpdated := Some endTime\<rparr>\<rparr>)))"

definition remoteFinally :: "State \<Rightarrow> State" where
  "remoteFinally s =
     s\<lparr>remoteCache := (remoteCache s)\<lparr>data := remoteCacheTemp s, updateInProgress := False,
                                        updateStartTime := None\<rparr>,
       remoteCacheTemp := []\<rparr>"

text \<open>The whole cycle, run from its call to its return with nothing in between.\<close>

definition updateRemoteCache :: "World \<Rightarrow> State \<Rightarrow> State" where
  "updateRemoteCache w s = remoteFinally (snd (remoteTry w s))"

subsection \<open>updateRemoteCache, await by await\<close>

text \<open>
  \<open>updateRemoteCache\<close> is an async function. It runs until it awaits a command
  (\<open>rclone listremotes\<close>, then \<open>rclone size\<close> for each remote) and goes on when the command
  has completed; timers, requests and other cycles run in between. A suspended cycle is
  its frame: the await it stands at, the locals it still needs and what the awaited
  promise settles to. \<open>remoteCacheTemp\<close> is a module-level object and every statement
  reads the map its \<open>data\<close> is bound to when the statement runs.
\<close>

datatype remoteFrame =
  AwaitListing "string + string list"
| AwaitProbe string "string list" instant "SizeInfo option"

text \<open>From the call to the first await: line 168, then the call at line 173.\<close>

definition remoteStart :: "World \<Rightarrow> State \<Rightarrow> remoteFrame \<times> State" where
  "remoteStart w s =
     (let s0 = s\<lparr>remoteCacheTemp := data (remoteCache s)\<rparr>
      in (AwaitListing (getAvailableRemotes w (tick s0)), bump s0))"

text \<open>The head of the loop: the next probe is started, or the loop is over, \<open>lastUpdated\<close>
  is set and the \<open>finally\<close> block runs.\<close>

definition remoteNext :: "World \<Rightarrow> string list \<Rightarrow> State \<Rightarrow> remoteFrame option \<times> State" where
  "remoteNext w remotes s =
     (case remotes of
        [] \<Rightarrow>
          (None, remoteFinally (s\<lparr>remoteCache := (remoteCache s)\<lparr>lastUpdated := Some (now w s)\<rparr>\<rparr>))
      | remote # rest \<Rightarrow>
          (Some (AwaitProbe remote rest (now w s) (getRcloneSize w (tick s) (remote @ '':''))),
           bump s))"

text \<open>The cycle goes on after its await: to the next await (\<open>Some\<close> frame) or to its
  return (\<open>None\<close>). A failed listing goes through \<open>catch\<close> and \<open>finally\<close>.\<close>

definition remoteResume :: "World \<Rightarrow> remoteFrame \<Rightarrow> State \<Rightarrow> remoteFrame option \<times> State" where
  "remoteResume w frame s =
     (case frame of
        AwaitListing (Inl e) \<Rightarrow> (None, remoteFinally s)
      | AwaitListing (Inr remotes) \<Rightarrow> remoteNext w remotes s
      | AwaitProbe remote rest remoteStartTime sizeInfo \<Rightarrow>
          remoteNext w rest (storeProbe w remote remoteStartTime sizeInfo s))"

text \<open>A cycle resumed \<open>n\<close> times in a row.\<close>

fun resumeAlone :: "World \<Rightarrow> nat \<Rightarrow> remoteFrame option \<times> State \<Rightarrow> remoteFrame option \<times> State" where
  "resumeAlone w 0 fs = fs"
| "resumeAlone w (Suc n) (None, s) = (None, s)"
| "resumeAlone w (Suc n) (Some frame, s) = resumeAlone w n (remoteResume w frame s)"

subsection \<open>updateLocalCache\<close>

text \<open>\<open>localCache.data.set(localDir, {...localCache.data.get(localDir), error, timestamp})\<close>.
  The key was read from \<open>localCache.data.keys()\<close>, so the entry spread is there.\<close>

definition markError :: "string \<Rightarrow> string \<Rightarrow> instant \<Rightarrow> State \<Rightarrow> State" where
  "markError localDir msg t s =
     (case map_of (data (localCache s)) localDir of
        None \<Rightarrow> s
      | Some e \<Rightarrow>
          s\<lparr>localCache := (localCache s)\<lparr>data :=
              AList.update localDir (e\<lparr>error := Some msg, timestamp := t\<rparr>)
                (data (localCache s))\<rparr>\<rparr>)"

definition historyOf :: "(string \<times> Sample list) list \<Rightarrow> string \<Rightarrow> Sample list" where
  "historyOf h p = (case map_of h p of None \<Rightarrow> [] | Some samples \<Rightarrow> samples)"

definition ensureHistory :: "string \<Rightarrow> (string \<times> Sample list) list \<Rightarrow> (string \<times> Sample list) list" where
  "ensureHistory p h = (if \<not> has h p then AList.update p [] h else h)"

definition thirtyDays :: int where
  "thirtyDays = 30 * 24 * 60 * 60 * 1000"

text \<open>The history update of the refresh cycle: the sample is pushed when the history is
  empty or its last sample has another byte count, and the history is then filtered.\<close>

definition cycleHistory ::
  "string \<Rightarrow> instant \<Rightarrow> int \<Rightarrow> (string \<times> Sample list) list \<Rightarrow> (string \<times> Sample list) list" where
  "cycleHistory localDir currentTime sizeBytes h =
     (let h1 = ensureHistory localDir h;
          history = historyOf h1 localDir
      in if history = [] \<or> sampleBytes (last history) \<noteq> sizeBytes
         then (let pushed = history @ [\<lparr>sampleTimestamp = currentTime, sampleBytes = sizeBytes\<rparr>];
                   thirtyDaysAgo = currentTime - thirtyDays;
                   filteredHistory = filter (\<lambda>entry. sampleTimestamp entry > thirtyDaysAgo) pushed
               in AList.update localDir filteredHistory h1)
         else h1)"

fun localLoop :: "World \<Rightarrow> string list \<Rightarrow> State \<Rightarrow> State" where
  "localLoop w [] s = s"
| "localLoop w (localDir # rest) s =
     (let dirStartTime = now w s;
          present = existsSync w (tick s) localDir;
          s1 = bump s
      in if \<not> present
         then localLoop w rest (markError localDir ''Directory no longer exists'' (now w s1) s1)
         else (case getDirectorySize w (tick s1) localDir of
                 Inl msg \<Rightarrow>
                   (let s2 = bump s1 in localLoop w rest (markError localDir msg (now w s2) s2))
               | Inr sizeBytes \<Rightarrow>
                   (let s2 = bump s1;
                        dirEndTime = now w s2;
                        durationMs = dirEndTime - dirStartTime;
                        currentTime = now w s2;
                        s3 = s2\<lparr>localCacheTemp :=
                               AList.update localDir
                                 \<lparr>bytes = sizeBytes, count = None, timestamp = currentTime,
                                  calculationDurationMs = durationMs, error = None\<rparr>
                                 (localCacheTemp s2)\<rparr>;
                        s4 = s3\<lparr>localSizeHistory :=
                               cycleHistory localDir currentTime sizeBytes (localSizeHistory s3)\<rparr>
                    in localLoop w rest s4)))"

text \<open>The \<open>try\<close> block: an empty store returns at once (the \<open>finally\<close> block still runs).\<close>

definition localTry :: "World \<Rightarrow> State \<Rightarrow> State" where
  "localTry w s =
     (if length (data (localCache s)) = 0 then s
      else (let localDirs = map fst (data (localCache s));
                s1 = localLoop w localDirs s;
                endTime = now w s1
            in s1\<lparr>localCache := (localCache s1)\<lparr>lastUpdated := Some endTime\<rparr>\<rparr>))"

definition localFinally :: "State \<Rightarrow> State" where
  "localFinally s =
     s\<lparr>localCache := (localCache s)\<lparr>data := localCacheTemp s, updateInProgress := False,
                                      updateStartTime := None\<rparr>,
       localCacheTemp := []\<rparr>"

definition updateLocalCache :: "World \<Rightarrow> State \<Rightarrow> State" where
  "updateLocalCache w s = localFinally (localTry w s)"

subsection \<open>addToLocalCache\<close>

text \<open>\<open>localSizeHistory.data.get(path).push(sample)\<close>, after the history was created
  when it was missing.\<close>

definition pushHistory ::
  "string \<Rightarrow> Sample \<Rightarrow> (string \<times> Sample list) list \<Rightarrow> (string \<times> Sample list) list" where
  "pushHistory p x h =
     (let h1 = ensureHistory p h in AList.update p (historyOf h1 p @ [x]) h1)"

definition addToLocalCache :: "World \<Rightarrow> string \<Rightarrow> State \<Rightarrow> (string + CacheEntry) \<times> State" where
  "addToLocalCache w directoryPath s =
     (let present = existsSync w (tick s) directoryPath;
          s1 = bump s
      in if \<not> present then (Inl (''Directory does not exist: '' @ directoryPath), s1)
         else (let startTime = now w s1
               in case getDirectorySize w (tick s1) directoryPath of
                    Inl msg \<Rightarrow> (Inl msg, bump s1)
                  | Inr sizeBytes \<Rightarrow>
                      (let s2 = bump s1;
                           endTime = now w s2;
                           durationMs = endTime - startTime;
                           dirInfo = \<lparr>bytes = sizeBytes, count = None, timestamp = endTime,
                                      calculationDurationMs = durationMs, error = None\<rparr>;
                           s3 = s2\<lparr>localCache := (localCache s2)\<lparr>data :=
                                  AList.update directoryPath dirInfo (data (localCache s2))\<rparr>\<rparr>;
                           s4 = s3\<lparr>localSizeHistory :=
                                  pushHistory directoryPath
                                    \<lparr>sampleTimestamp = endTime, sampleBytes = sizeBytes\<rparr>
                                    (localSizeHistory s3)\<rparr>
                       in (Inr dirInfo, s4))))"

subsection \<open>getLastModified\<close>

text \<open>The loop \<open>for (i = history.length - 1; i > 0; i--)\<close>: the index it returns at.\<close>

fun scanChange :: "Sample list \<Rightarrow> nat \<Rightarrow> nat option" where
  "scanChange history 0 = None"
| "scanChange history (Suc k) =
     (if sampleBytes (history ! Suc k) \<noteq> sampleBytes (history ! k) then Some (Suc k)
      else scanChange history k)"

definition lastModifiedOf :: "int \<Rightarrow> Sample list option \<Rightarrow> instant option" where
  "lastModifiedOf tz h =
     (case h of
        None \<Rightarrow> None
      | Some history \<Rightarrow>
          if length history = 0 then None
          else (case scanChange history (length history - 1) of
                  Some i \<Rightarrow> Some (setMinutes0 tz (sampleTimestamp (history ! i)))
                | None \<Rightarrow> Some (setMinutes0 tz (sampleTimestamp (history ! 0)))))"

definition getLastModified :: "World \<Rightarrow> State \<Rightarrow> string \<Rightarrow> instant option" where
  "getLastModified w s directoryPath =
     lastModifiedOf (tzOffset w) (map_of (localSizeHistory s) directoryPath)"

subsection \<open>POST /api/compare\<close>

record CompareRequest =
  reqRemotePath :: "string option"
  reqLocalPath :: "string option"
  forceDirect :: "bool option"

record LocalInfo =
  localBytes :: int
  localFormatted :: string
  localCachedAt :: "instant option"

record RemoteInfo =
  remoteBytes :: int
  remoteFormatted :: string
  remoteCount :: "int option"
  remoteCachedAt :: instant

record MissCacheStatus =
  lastFullUpdate :: "instant option"
  missUpdateInProgress :: bool
  missUpdateStartTime :: "instant option"

record CacheMiss =
  missStatus :: string
  missMessage :: string
  missRemotePath :: string
  missLocalPath :: string
  missLastModified :: "instant option"
  missLastModifiedFormatted :: "string option"
  missLocal :: LocalInfo
  missCacheStatus :: MissCacheStatus

record Difference =
  differenceBytes :: int
  differenceFormatted :: string
  direction :: string

record SyncStatus =
  percentageSynced :: rat
  isSynced :: bool

record Comparison =
  cmpTimestamp :: instant
  cmpRemotePath :: string
  cmpLocalPath :: string
  cmpLastModified :: "instant option"
  cmpLastModifiedFormatted :: "string option"
  cmpRemote :: RemoteInfo
  cmpLocal :: LocalInfo
  difference :: Difference
  syncStatus :: SyncStatus
  remoteLastUpdate :: "instant option"
  localLastUpdate :: "instant option"

text \<open>The four responses of the handler, by HTTP status: 400, 404, 200 and 500.\<close>

datatype Response =
  BadRequest string
| NotFound CacheMiss
| Ok Comparison
| ServerError string

fun statusCode :: "Response \<Rightarrow> nat" where
  "statusCode (BadRequest e) = 400"
| "statusCode (NotFound m) = 404"
| "statusCode (Ok c) = 200"
| "statusCode (ServerError e) = 500"

text \<open>
  Lines 528 to 555: \<open>localSizeData\<close> (undefined after the fallback) and \<open>localSizeBytes\<close>.
  When \<open>addToLocalCache\<close> throws, the size is computed again without caching; an error
  of that second computation leaves the handler's \<open>try\<close> block (\<open>Inl\<close>).
\<close>

definition resolveLocal ::
  "World \<Rightarrow> string \<Rightarrow> State \<Rightarrow> (string + CacheEntry option \<times> int) \<times> State" where
  "resolveLocal w localPath s =
     (case map_of (data (localCache s)) localPath of
        Some localSizeData \<Rightarrow> (Inr (Some localSizeData, bytes localSizeData), s)
      | None \<Rightarrow>
          (case addToLocalCache w localPath s of
             (Inr localSizeData, s1) \<Rightarrow> (Inr (Some localSizeData, bytes localSizeData), s1)
           | (Inl localError, s1) \<Rightarrow>
               (case getDirectorySize w (tick s1) localPath of
                  Inl msg \<Rightarrow> (Inl msg, bump s1)
                | Inr localSizeBytes \<Rightarrow>
                    (let s2 = bump s1
                     in (Inr (None, localSizeBytes),
                         s2\<lparr>localSizeHistory :=
                              pushHistory localPath
                                \<lparr>sampleTimestamp = now w s2, sampleBytes = localSizeBytes\<rparr>
                                (localSizeHistory s2)\<rparr>)))))"

definition localInfo :: "World \<Rightarrow> CacheEntry option \<Rightarrow> int \<Rightarrow> LocalInfo" where
  "localInfo w localSizeData localSizeBytes =
     \<lparr>localBytes = localSizeBytes, localFormatted = formatBytes (mathLog w) localSizeBytes,
      localCachedAt = map_option timestamp localSizeData\<rparr>"

definition cacheMissMessage :: "string \<Rightarrow> string" where
  "cacheMissMessage remotePath =
     ''Remote path \"'' @ remotePath @
     ''\" not found in cache. Use /api/cache/refresh to update the cache or set forceDirect=true in your request to fetch directly.''"

definition cacheMiss ::
  "World \<Rightarrow> State \<Rightarrow> string \<Rightarrow> string \<Rightarrow> CacheEntry option \<Rightarrow> int \<Rightarrow> CacheMiss" where
  "cacheMiss w s remotePath localPath localSizeData localSizeBytes =
     (let lastModified = getLastModified w s localPath;
          lastModifiedFormatted = formatDateToLocal (tzOffset w) lastModified
      in \<lparr>missStatus = ''cache-miss'', missMessage = cacheMissMessage remotePath,
          missRemotePath = remotePath, missLocalPath = localPath,
          missLastModified = lastModified, missLastModifiedFormatted = lastModifiedFormatted,
          missLocal = localInfo w localSizeData localSizeBytes,
          missCacheStatus =
            \<lparr>lastFullUpdate = lastUpdated (remoteCache s),
             missUpdateInProgress = updateInProgress (remoteCache s),
             missUpdateStartTime = updateStartTime (remoteCache s)\<rparr>\<rparr>)"

definition comparison ::
  "World \<Rightarrow> State \<Rightarrow> string \<Rightarrow> string \<Rightarrow> CacheEntry \<Rightarrow> CacheEntry option \<Rightarrow> int \<Rightarrow> Comparison" where
  "comparison w s remotePath localPath remoteSizeData localSizeData localSizeBytes =
     (let remoteSizeBytes = bytes remoteSizeData;
          diff = remoteSizeBytes - localSizeBytes;
          percentage = (if remoteSizeBytes > 0
                        then parseFixed2 (fmul (fdiv (of_int localSizeBytes) (of_int remoteSizeBytes)) 100)
                        else 0);
          lastModified = getLastModified w s localPath;
          lastModifiedFormatted = formatDateToLocal (tzOffset w) lastModified
      in \<lparr>cmpTimestamp = now w s, cmpRemotePath = remotePath, cmpLocalPath = localPath,
          cmpLastModified = lastModified, cmpLastModifiedFormatted = lastModifiedFormatted,
          cmpRemote =
            \<lparr>remoteBytes = remoteSizeBytes, remoteFormatted = formatBytes (mathLog w) remoteSizeBytes,
             remoteCount = count remoteSizeData, remoteCachedAt = timestamp remoteSizeData\<rparr>,
          cmpLocal = localInfo w localSizeData localSizeBytes,
          difference =
            \<lparr>differenceBytes = diff, differenceFormatted = formatBytes (mathLog w) \<bar>diff\<bar>,
             direction = (if diff > 0 then ''remote-larger''
                          else if diff < 0 then ''local-larger'' else ''equal'')\<rparr>,
          syncStatus = \<lparr>percentageSynced = percentage, isSynced = (\<bar>diff\<bar> = 0)\<rparr>,
          remoteLastUpdate = lastUpdated (remoteCache s),
          localLastUpdate = lastUpdated (localCache s)\<rparr>)"

definition compare :: "World \<Rightarrow> CompareRequest \<Rightarrow> State \<Rightarrow> Response \<times> State" where
  "compare w req s =
     (if \<not> truthyString (reqRemotePath req) \<or> \<not> truthyString (reqLocalPath req)
      then (BadRequest ''Both remotePath and localPath are required'', s)
      else (let remotePath = the (reqRemotePath req);
                localPath = the (reqLocalPath req);
                present = existsSync w (tick s) localPath;
                s1 = bump s
            in if \<not> present
               then (BadRequest (''Local path does not exist: '' @ localPath), s1)
               else (case resolveLocal w localPath s1 of
                       (Inl msg, s2) \<Rightarrow> (ServerError msg, s2)
                     | (Inr (localSizeData, localSizeBytes), s2) \<Rightarrow>
                         (case map_of (data (remoteCache s2)) remotePath of
                            None \<Rightarrow>
                              (NotFound (cacheMiss w s2 remotePath localPath
                                           localSizeData localSizeBytes), s2)
                          | Some remoteSizeData \<Rightarrow>
                              (Ok (comparison w s2 remotePath localPath remoteSizeData
                                     localSizeData localSizeBytes), s2)))))"

subsection \<open>Refresh triggers\<close>

text \<open>
  A timer callback or a request handler runs as one task, together with every
  continuation that needs no I/O to become ready. \<open>updateLocalCache\<close> awaits only
  \<open>getDirectorySize\<close>, whose promise is settled by synchronous file-system calls: once
  called, the local cycle runs to its return within the task that called it, and so
  does the comparison handler. \<open>updateRemoteCache\<close> awaits external commands: the task
  that calls it runs it to its first await and leaves its frame behind.
\<close>

definition markStarted :: "instant \<Rightarrow> Cache \<Rightarrow> Cache" where
  "markStarted t c = c\<lparr>updateInProgress := True, updateStartTime := Some t\<rparr>"

text \<open>\<open>remoteCache.updateInProgress = true; remoteCache.updateStartTime = ...;
  updateRemoteCache()\<close>, and the same for the local store.\<close>

definition launchRemote :: "World \<Rightarrow> State \<Rightarrow> remoteFrame \<times> State" where
  "launchRemote w s = remoteStart w (s\<lparr>remoteCache := markStarted (now w s) (remoteCache s)\<rparr>)"

definition runLocal :: "World \<Rightarrow> State \<Rightarrow> State" where
  "runLocal w s = updateLocalCache w (s\<lparr>localCache := markStarted (now w s) (localCache s)\<rparr>)"

text \<open>The \<open>setTimeout\<close> callback of \<open>scheduleCacheUpdates(true)\<close>: the remote cycles it
  leaves in flight, and the state at the end of the task.\<close>

definition initialUpdate :: "World \<Rightarrow> State \<Rightarrow> remoteFrame list \<times> State" where
  "initialUpdate w s = (let (frame, s1) = launchRemote w s in ([frame], runLocal w s1))"

text \<open>The two \<open>setInterval\<close> callbacks.\<close>

definition remoteIntervalTick :: "World \<Rightarrow> State \<Rightarrow> remoteFrame list \<times> State" where
  "remoteIntervalTick w s = (let (frame, s1) = launchRemote w s in ([frame], s1))"

definition localIntervalTick :: "World \<Rightarrow> State \<Rightarrow> remoteFrame list \<times> State" where
  "localIntervalTick w s = ([], runLocal w s)"

text \<open>The handler of \<open>POST /api/cache/refresh\<close>.\<close>

definition refreshRemote :: "World \<Rightarrow> State \<Rightarrow> remoteFrame list \<times> State" where
  "refreshRemote w s =
     (if updateInProgress (remoteCache s) then ([], s)
      else (let (frame, s1) = launchRemote w s in ([frame], s1)))"

definition refreshLocal :: "World \<Rightarrow> State \<Rightarrow> State" where
  "refreshLocal w s =
     (if updateInProgress (localCache s) then s
      else if length (data (localCache s)) > 0 then runLocal w s
      else s)"

definition cacheRefresh :: "World \<Rightarrow> State \<Rightarrow> remoteFrame list \<times> State" where
  "cacheRefresh w s = (let (frames, s1) = refreshRemote w s in (frames, refreshLocal w s1))"

section \<open>Runs of the service\<close>

text \<open>
  The service between two tasks: the module's state and the frames of the remote cycles
  in flight. A task is the start-up callback, an interval callback, a request, or the
  completion of the command that the \<open>k\<close>-th cycle in flight awaits.
\<close>

record System =
  shared :: State
  inFlight :: "remoteFrame list"

datatype event =
  Startup
| RemoteTick
| LocalTick
| Refresh
| Request CompareRequest
| Resume nat

definition initialSystem :: System where
  "initialSystem = \<lparr>shared = initialState, inFlight = []\<rparr>"

definition afterTrigger :: "remoteFrame list \<times> State \<Rightarrow> System \<Rightarrow> System" where
  "afterTrigger r sys = \<lparr>shared = snd r, inFlight = inFlight sys @ fst r\<rparr>"

definition resumeFrame :: "World \<Rightarrow> nat \<Rightarrow> System \<Rightarrow> System" where
  "resumeFrame w k sys =
     (if k < length (inFlight sys)
      then (case remoteResume w (inFlight sys ! k) (shared sys) of
              (None, s) \<Rightarrow> \<lparr>shared = s, inFlight = take k (inFlight sys) @ drop (Suc k) (inFlight sys)\<rparr>
            | (Some frame, s) \<Rightarrow> \<lparr>shared = s, inFlight = (inFlight sys)[k := frame]\<rparr>)
      else sys)"

fun step :: "World \<Rightarrow> event \<Rightarrow> System \<Rightarrow> System" where
  "step w Startup sys = afterTrigger (initialUpdate w (shared sys)) sys"
| "step w RemoteTick sys = afterTrigger (remoteIntervalTick w (shared sys)) sys"
| "step w LocalTick sys = afterTrigger (localIntervalTick w (shared sys)) sys"
| "step w Refresh sys = afterTrigger (cacheRefresh w (shared sys)) sys"
| "step w (Request req) sys = sys\<lparr>shared := snd (compare w req (shared sys))\<rparr>"
| "step w (Resume k) sys = resumeFrame w k sys"

fun run :: "World \<Rightarrow> event list \<Rightarrow> System \<Rightarrow> System" where
  "run w [] sys = sys"
| "run w (e # es) sys = run w es (step w e sys)"

inductive reachable :: "World \<Rightarrow> System \<Rightarrow> bool" for w :: World where
  start: "reachable w initialSystem"
| task: "reachable w sys \<Longrightarrow> reachable w (step w e sys)"

text \<open>The remote names a frame still holds.\<close>

fun frameRemotes :: "remoteFrame \<Rightarrow> string list" where
  "frameRemotes (AwaitListing (Inl e)) = []"
| "frameRemotes (AwaitListing (Inr remotes)) = remotes"
| "frameRemotes (AwaitProbe remote rest remoteStartTime sizeInfo) = remote # rest"

text \<open>
  A remote path is written \<open>name:subpath\<close>: the subpath is what follows the first colon.
  \<open>rclone listremotes\<close> prints one configured remote per line as \<open>name:\<close>, and a remote
  name holds no colon.
\<close>

definition subpathOf :: "string \<Rightarrow> string option" where
  "subpathOf p = (case dropWhile (\<lambda>c. c \<noteq> CHR '':'') p of [] \<Rightarrow> None | c # sub \<Rightarrow> Some sub)"

definition hasSubpath :: "string \<Rightarrow> bool" where
  "hasSubpath p = (case subpathOf p of None \<Rightarrow> False | Some sub \<Rightarrow> sub \<noteq> [])"

definition bareRoot :: "string \<Rightarrow> bool" where
  "bareRoot k = (subpathOf k = Some [])"

definition listsRemoteNames :: "World \<Rightarrow> bool" where
  "listsRemoteNames w =
     (\<forall>n stdout. execListRemotes w n = Inr stdout \<longrightarrow>
        (\<forall>remote \<in> set (parseRemotes stdout). CHR '':'' \<notin> set remote))"

text \<open>The invariant of the remote store between two tasks: the keys of the store and
  of the temporary map are bare roots, and the cycles in flight hold remote names without
  a colon.\<close>

definition colonFree :: "string list \<Rightarrow> bool" where
  "colonFree remotes = list_all (\<lambda>remote. CHR '':'' \<notin> set remote) remotes"

definition bareKeys :: "(string \<times> CacheEntry) list \<Rightarrow> bool" where
  "bareKeys m = list_all (\<lambda>entry. bareRoot (fst entry)) m"

definition remoteKeysInv :: "System \<Rightarrow> bool" where
  "remoteKeysInv sys =
     (bareKeys (data (remoteCache (shared sys))) \<and> bareKeys (remoteCacheTemp (shared sys)) \<and>
      list_all (\<lambda>frame. colonFree (frameRemotes frame)) (inFlight sys))"

subsection \<open>Example worlds and requests\<close>

definition exampleListing :: string where
  "exampleListing = ''gdrive:'' @ [CHR 0x0A] @ ''s3:'' @ [CHR 0x0A]"

text \<open>\<open>Math.log\<close> at the byte counts that occur in the examples, and at 1024: the
  doubles nearest to their natural logarithms. The examples call it with no other
  argument.\<close>

definition exampleLog :: "rat \<Rightarrow> rat" where
  "exampleLog x =
     (if x = 1024 then 7804143460206699 / 1125899906842624
      else if x = 500 then 3498513339538481 / 562949953421312
      else if x = 1536 then 516291036728351 / 70368744177664
      else if x = 1234567 then 3948033004454027 / 281474976710656
      else if x = 5368709120 then 6306124094074659 / 281474976710656
      else if x = 1649267441664 then 1979567935517107 / 70368744177664
      else if x = 2251799813685248 then 4975141455881771 / 140737488355328
      else if x = 3458764513820540928 then 6007723529338473 / 140737488355328
      else if x = 1475739525896764129280 then 857503773829439 / 17592186044416
      else if x = 8462480737302404222943232 then 4039002983574943 / 70368744177664
      else if x = 1125899906842623 then 4877589662629187 / 140737488355328
      else if x = 7 then 8763600222181975 / 4503599627370496
      else if x = 100 then 2592480341699211 / 562949953421312
      else if x = 1342177280 then 5915916921064325 / 281474976710656
      else if x = 4026531840 then 6225148789431221 / 281474976710656
      else if x = 142850000001 then 3614850968556269 / 140737488355328
      else if x = 857150000006 then 3867026905850163 / 140737488355328
      else if x = 1000000000007 then 7777441025099603 / 281474976710656
      else 0)"

definition exampleWorld :: World where
  "exampleWorld =
     \<lparr>mathLog = exampleLog,
      clockAt = (\<lambda>n. 1710000000000 + 1000 * int n), tzOffset = 0,
      existsSync = (\<lambda>n p. True),
      getDirectorySize = (\<lambda>n p. Inr 5368709120),
      execListRemotes = (\<lambda>n. Inr exampleListing),
      getRcloneSize =
        (\<lambda>n p. Some \<lparr>infoError = None, infoBytes = Some 5368709120, infoCount = Some 150\<rparr>)\<rparr>"

text \<open>The listing command fails.\<close>

definition listingFails :: World where
  "listingFails = exampleWorld\<lparr>execListRemotes := (\<lambda>n. Inl ''Command failed: rclone listremotes'')\<rparr>"

text \<open>The directory is there for the first three calls and gone afterwards.\<close>

definition directoryVanishes :: World where
  "directoryVanishes = exampleWorld\<lparr>existsSync := (\<lambda>n p. n < 3)\<rparr>"

text \<open>The traversal fails once, at the third call.\<close>

definition traversalFailsOnce :: World where
  "traversalFailsOnce =
     exampleWorld\<lparr>getDirectorySize :=
       (\<lambda>n p. if n = 2 then Inl ''EACCES: permission denied'' else Inr 100)\<rparr>"

text \<open>The path exists and every traversal of it fails (a file, or an unreadable
  directory).\<close>

definition traversalFails :: World where
  "traversalFails =
     exampleWorld\<lparr>getDirectorySize := (\<lambda>n p. Inl ''ENOTDIR: not a directory'')\<rparr>"

definition exampleRequest :: CompareRequest where
  "exampleRequest =
     \<lparr>reqRemotePath = Some ''gdrive:'', reqLocalPath = Some ''/data'', forceDirect = None\<rparr>"

definition subpathRequest :: CompareRequest where
  "subpathRequest =
     \<lparr>reqRemotePath = Some ''gdrive:backup/photos'', reqLocalPath = Some ''/data'',
      forceDirect = None\<rparr>"

text \<open>The state after one remote refresh cycle in the example world.\<close>

definition cachedState :: State where
  "cachedState = updateRemoteCache exampleWorld initialState"

text \<open>A history of four samples, taken at 12:10, 13:20, 14:30 and 15:40 UTC on
  9 March 2024; the byte count changes at the third.\<close>

definition exampleHistory :: "Sample list" where
  "exampleHistory =
     [\<lparr>sampleTimestamp = 1709986200000, sampleBytes = 100\<rparr>,
      \<lparr>sampleTimestamp = 1709990400000, sampleBytes = 100\<rparr>,
      \<lparr>sampleTimestamp = 1709994600000, sampleBytes = 200\<rparr>,
      \<lparr>sampleTimestamp = 1709998800000, sampleBytes = 200\<rparr>]"

definition historyState :: State where
  "historyState = initialState\<lparr>localSizeHistory := [(''/data'', exampleHistory)]\<rparr>"

text \<open>The comparison of \<open>gdrive:\<close> with \<open>/data\<close> in that state: the entries it reads, the
  state it leaves, and its payload.\<close>

definition gdriveEntry :: CacheEntry where
  "gdriveEntry =
     \<lparr>bytes = 5368709120, count = Some 150, timestamp = 1710000002000,
      calculationDurationMs = 1000, error = None\<rparr>"

definition dataEntry :: CacheEntry where
  "dataEntry =
     \<lparr>bytes = 5368709120, count = None, timestamp = 1710000006000,
      calculationDurationMs = 1000, error = None\<rparr>"

definition comparedState :: State where
  "comparedState =
     cachedState
       \<lparr>localCache := emptyCache\<lparr>data := [(''/data'', dataEntry)]\<rparr>,
        localSizeHistory :=
          [(''/data'', [\<lparr>sampleTimestamp = 1710000006000, sampleBytes = 5368709120\<rparr>])],
        tick := 6\<rparr>"

definition exampleComparison :: Comparison where
  "exampleComparison =
     comparison exampleWorld comparedState ''gdrive:'' ''/data'' gdriveEntry (Some dataEntry)
       5368709120"

text \<open>The state after a first request for \<open>/data\<close> in the world where the directory
  vanishes afterwards.\<close>

definition trackedState :: State where
  "trackedState = snd (compare directoryVanishes exampleRequest initialState)"

text \<open>Forty days pass between the fifth and the sixth call.\<close>

definition slowWorld :: World where
  "slowWorld =
     traversalFailsOnce\<lparr>clockAt :=
       (\<lambda>n. if n < 5 then 1710000000000 + 1000 * int n else 1713456000000 + 1000 * int n)\<rparr>"

text \<open>Two requests for \<open>/data\<close> in that world, starting from the initial state.\<close>

definition afterFirstRequest :: State where
  "afterFirstRequest = snd (compare slowWorld exampleRequest initialState)"

definition afterSecondRequest :: State where
  "afterSecondRequest = snd (compare slowWorld exampleRequest afterFirstRequest)"

text \<open>The local directory holds a quarter of the remote's bytes.\<close>

definition quarterWorld :: World where
  "quarterWorld = exampleWorld\<lparr>getDirectorySize := (\<lambda>n p. Inr 1342177280)\<rparr>"

definition quarterState :: State where
  "quarterState =
     cachedState
       \<lparr>localCache := emptyCache\<lparr>data := [(''/data'', dataEntry\<lparr>bytes := 1342177280\<rparr>)]\<rparr>,
        localSizeHistory :=
          [(''/data'', [\<lparr>sampleTimestamp = 1710000006000, sampleBytes = 1342177280\<rparr>])],
        tick := 6\<rparr>"

definition quarterComparison :: Comparison where
  "quarterComparison =
     comparison quarterWorld quarterState ''gdrive:'' ''/data'' gdriveEntry
       (Some (dataEntry\<lparr>bytes := 1342177280\<rparr>)) 1342177280"

text \<open>The remote holds 1000000000007 bytes and the local directory 857150000006.\<close>

definition roundingWorld :: World where
  "roundingWorld =
     exampleWorld
       \<lparr>getDirectorySize := (\<lambda>n p. Inr 857150000006),
        getRcloneSize :=
          (\<lambda>n p. Some \<lparr>infoError = None, infoBytes = Some 1000000000007, infoCount = Some 150\<rparr>)\<rparr>"

definition roundingState :: State where
  "roundingState = updateRemoteCache roundingWorld initialState"

text \<open>A manual refresh in the initial state, and an interval tick before the cycle it
  started has returned.\<close>

definition refreshingSystem :: System where
  "refreshingSystem = step exampleWorld Refresh initialSystem"

definition overlappingSystem :: System where
  "overlappingSystem = step exampleWorld RemoteTick refreshingSystem"

text \<open>
  Two overlapping remote cycles. The sixth command, a listing, fails, and the fifth, a
  probe, reports 7 bytes. A first cycle fills the store. Cycle A starts, gets its
  listing and awaits its first probe; cycle B is started by the interval tick and
  awaits its listing; A's probe completes; B's listing fails.
\<close>

definition overlapWorld :: World where
  "overlapWorld =
     exampleWorld
       \<lparr>execListRemotes :=
          (\<lambda>n. if n = 5 then Inl ''Command failed: rclone listremotes'' else Inr exampleListing),
        getRcloneSize :=
          (\<lambda>n p. if n = 4
                 then Some \<lparr>infoError = None, infoBytes = Some 7, infoCount = Some 1\<rparr>
                 else Some \<lparr>infoError = None, infoBytes = Some 5368709120, infoCount = Some 150\<rparr>)\<rparr>"

definition storeFilled :: System where
  "storeFilled = run overlapWorld [RemoteTick, Resume 0, Resume 0, Resume 0] initialSystem"

definition cycleAProbing :: System where
  "cycleAProbing = run overlapWorld [RemoteTick, Resume 0] storeFilled"

definition cycleBStarted :: System where
  "cycleBStarted = step overlapWorld RemoteTick cycleAProbing"

definition cycleAWrote :: System where
  "cycleAWrote = step overlapWorld (Resume 0) cycleBStarted"

definition cycleBReturned :: System where
  "cycleBReturned = step overlapWorld (Resume 1) cycleAWrote"

section \<open>Properties\<close>

subsection \<open>Rounding to a double\<close>

lemma roundHalfEven_near: "\<bar>of_int (roundHalfEven y) - y\<bar> \<le> 1 / 2"
proof -
  define d where "d = y - of_int \<lfloor>y\<rfloor>"
  have d: "0 \<le> d" "d < 1" unfolding d_def by linarith+
  have y: "y = of_int \<lfloor>y\<rfloor> + d" by (simp add: d_def)
  consider "d < 1 / 2" | "1 / 2 < d" | "d = 1 / 2" by linarith
  then show ?thesis
  proof cases
    case 1
    then have "roundHalfEven y = \<lfloor>y\<rfloor>" by (simp add: roundHalfEven_def Let_def d_def)
    with 1 d y show ?thesis by linarith
  next
    case 2
    then have "roundHalfEven y = \<lfloor>y\<rfloor> + 1" by (simp add: roundHalfEven_def Let_def d_def)
    with 2 d y show ?thesis by linarith
  next
    case 3
    then have "roundHalfEven y = \<lfloor>y\<rfloor> \<or> roundHalfEven y = \<lfloor>y\<rfloor> + 1"
      by (simp add: roundHalfEven_def Let_def d_def)
    with 3 y show ?thesis by linarith
  qed
qed

lemma roundHalfEven_of_int: "roundHalfEven (of_int z) = z"
  by (simp add: roundHalfEven_def Let_def)

lemma roundHalfEven_quotient:
  assumes "0 < b"
  shows "roundHalfEven (of_int a / of_int b) =
           (if 2 * (a mod b) < b then a div b
            else if b < 2 * (a mod b) then a div b + 1
            else if even (a div b) then a div b else a div b + 1)"
proof -
  have fl: "\<lfloor>of_int a / of_int b :: rat\<rfloor> = a div b" by (rule floor_divide_of_int_eq)
  have "(of_int a :: rat) = of_int (a div b) * of_int b + of_int (a mod b)"
    by (metis div_mult_mod_eq of_int_add of_int_mult)
  then have d: "(of_int a / of_int b :: rat) - of_int (a div b) = of_int (a mod b) / of_int b"
    using assms by (simp add: field_simps)
  have lt: "(of_int (a mod b) / of_int b :: rat) < 1 / 2 \<longleftrightarrow> 2 * (a mod b) < b"
  proof -
    have "(of_int (a mod b) / of_int b :: rat) < 1 / 2 \<longleftrightarrow> (of_int (2 * (a mod b)) :: rat) < of_int b"
      using assms by (simp add: field_simps)
    then show ?thesis by (simp only: of_int_less_iff)
  qed
  have gt: "1 / 2 < (of_int (a mod b) / of_int b :: rat) \<longleftrightarrow> b < 2 * (a mod b)"
  proof -
    have "1 / 2 < (of_int (a mod b) / of_int b :: rat) \<longleftrightarrow> (of_int b :: rat) < of_int (2 * (a mod b))"
      using assms by (simp add: field_simps)
    then show ?thesis by (simp only: of_int_less_iff)
  qed
  show ?thesis
    unfolding roundHalfEven_def Let_def fl d lt gt by simp
qed

lemma normalise_range:
  assumes "2 ^ 52 / 2 ^ n \<le> m" "m < 2 ^ 53 * 2 ^ n" "0 < s"
  shows "2 ^ 52 \<le> fst (normalise n m s) \<and> fst (normalise n m s) < 2 ^ 53 \<and>
         fst (normalise n m s) * snd (normalise n m s) = m * s \<and> 0 < snd (normalise n m s)"
  using assms
proof (induction n arbitrary: m s)
  case 0
  then show ?case by simp
next
  case (Suc n)
  show ?case
  proof (cases "m < 2 ^ 52")
    case True
    have "2 ^ 52 / 2 ^ n \<le> 2 * m" using Suc.prems(1) by (simp add: field_simps)
    moreover have "2 * m < 2 ^ 53 * 2 ^ n"
    proof -
      have "2 * m < 2 ^ 53" using True by simp
      also have "(2 ^ 53 :: rat) \<le> 2 ^ 53 * 2 ^ n" by simp
      finally show ?thesis .
    qed
    moreover have "0 < s / 2" using Suc.prems(3) by simp
    ultimately have "2 ^ 52 \<le> fst (normalise n (2 * m) (s / 2)) \<and>
        fst (normalise n (2 * m) (s / 2)) < 2 ^ 53 \<and>
        fst (normalise n (2 * m) (s / 2)) * snd (normalise n (2 * m) (s / 2)) = 2 * m * (s / 2) \<and>
        0 < snd (normalise n (2 * m) (s / 2))"
      by (rule Suc.IH)
    with True show ?thesis by simp
  next
    case False
    show ?thesis
    proof (cases "2 ^ 53 \<le> m")
      case True
      have "2 ^ 52 / 2 ^ n \<le> m / 2"
      proof -
        have "(2 ^ 52 :: rat) / 2 ^ n \<le> 2 ^ 52" by (simp add: field_simps)
        also have "\<dots> \<le> m / 2" using True by simp
        finally show ?thesis .
      qed
      moreover have "m / 2 < 2 ^ 53 * 2 ^ n" using Suc.prems(2) by simp
      moreover have "0 < 2 * s" using Suc.prems(3) by simp
      ultimately have "2 ^ 52 \<le> fst (normalise n (m / 2) (2 * s)) \<and>
          fst (normalise n (m / 2) (2 * s)) < 2 ^ 53 \<and>
          fst (normalise n (m / 2) (2 * s)) * snd (normalise n (m / 2) (2 * s)) = m / 2 * (2 * s) \<and>
          0 < snd (normalise n (m / 2) (2 * s))"
        by (rule Suc.IH)
      with True \<open>\<not> m < 2 ^ 52\<close> show ?thesis by simp
    next
      case F2: False
      with False Suc.prems(3) show ?thesis by simp
    qed
  qed
qed

lemma normalRangeI:
  assumes "1 / 2 ^ 200 \<le> \<bar>x\<bar>" "\<bar>x\<bar> \<le> 2 ^ 200"
  shows "normalRange x"
proof -
  have "(2 ^ 52 / 2 ^ 2200 :: rat) = 1 / 2 ^ 2148"
    by (simp add: power_diff [of 2 52 2200, symmetric] field_simps flip: power_add)
  also have "\<dots> \<le> 1 / 2 ^ 200"
    by (intro divide_left_mono power_increasing) simp_all
  finally have lo: "(2 ^ 52 / 2 ^ 2200 :: rat) \<le> 1 / 2 ^ 200" .
  have "(2 ^ 200 :: rat) < 2 ^ 2253" by (intro power_strict_increasing) simp_all
  also have "\<dots> = 2 ^ 53 * 2 ^ 2200" by (simp flip: power_add)
  finally have hi: "(2 ^ 200 :: rat) < 2 ^ 53 * 2 ^ 2200" .
  from lo hi assms show ?thesis unfolding normalRange_def by linarith
qed

lemma roundDouble_error:
  assumes "normalRange x"
  shows "\<bar>roundDouble x - x\<bar> \<le> \<bar>x\<bar> / 2 ^ 53"
proof -
  note assms = assms [unfolded normalRange_def, THEN conjunct1]
               assms [unfolded normalRange_def, THEN conjunct2]
  define m where "m = fst (normalise 2200 \<bar>x\<bar> 1)"
  define s where "s = snd (normalise 2200 \<bar>x\<bar> 1)"
  from normalise_range [OF assms, of 1] have
    m: "2 ^ 52 \<le> m" "m < 2 ^ 53" and ms: "m * s = \<bar>x\<bar>" and s: "0 < s"
    by (simp_all add: m_def s_def)
  have x0: "x \<noteq> 0" using assms(1) by auto
  define r where "r = of_int (roundHalfEven m) * s"
  have rd: "roundDouble x = (if x < 0 then - r else r)"
    using x0 by (simp add: roundDouble_def r_def m_def s_def case_prod_beta Let_def)
  have "\<bar>r - \<bar>x\<bar>\<bar> = \<bar>of_int (roundHalfEven m) - m\<bar> * s"
    using s by (simp add: r_def ms [symmetric] left_diff_distrib [symmetric] abs_mult)
  also have "\<dots> \<le> 1 / 2 * s"
    using roundHalfEven_near [of m] s by (intro mult_right_mono) simp_all
  also have "\<dots> \<le> \<bar>x\<bar> / 2 ^ 53"
  proof -
    have "2 ^ 52 * s \<le> m * s" using m(1) s by (intro mult_right_mono) simp_all
    then have "2 ^ 52 * s \<le> \<bar>x\<bar>" by (simp add: ms)
    then show ?thesis by (simp add: field_simps)
  qed
  finally have "\<bar>r - \<bar>x\<bar>\<bar> \<le> \<bar>x\<bar> / 2 ^ 53" .
  then show ?thesis unfolding rd by (auto simp: abs_if split: if_splits)
qed

lemma powi_neg_Suc: "(2::rat) powi (- (e + 1)) = 2 powi (- e) / 2"
proof -
  have "- (e + 1) = - e + (- 1)" by arith
  then have "(2::rat) powi (- (e + 1)) = 2 powi (- e + (- 1))" by (simp only:)
  also have "\<dots> = 2 powi (- e) * 2 powi (- 1)" by (rule power_int_add) simp
  also have "(2::rat) powi (- 1) = 1 / 2" by (simp add: power_int_minus)
  finally show ?thesis by simp
qed

lemma powi_neg_pred: "(2::rat) powi (- (e - 1)) = 2 powi (- e) * 2"
proof -
  have "- (e - 1) = - e + 1" by arith
  then have "(2::rat) powi (- (e - 1)) = 2 powi (- e + 1)" by (simp only:)
  also have "\<dots> = 2 powi (- e) * 2 powi 1" by (rule power_int_add) simp
  finally show ?thesis by simp
qed

lemma powi_pred: "(2::rat) powi (e - 1) = 2 powi e / 2"
proof -
  have "e - 1 = e + (- 1)" by arith
  then have "(2::rat) powi (e - 1) = 2 powi (e + (- 1))" by (simp only:)
  also have "\<dots> = 2 powi e * 2 powi (- 1)" by (rule power_int_add) simp
  also have "(2::rat) powi (- 1) = 1 / 2" by (simp add: power_int_minus)
  finally show ?thesis by simp
qed

lemma normalise_track:
  "\<exists>e. fst (normalise n m s) = m * 2 powi e \<and> snd (normalise n m s) = s * 2 powi (- e)"
proof (induction n arbitrary: m s)
  case 0
  have "fst (normalise 0 m s) = m * 2 powi 0 \<and> snd (normalise 0 m s) = s * 2 powi (- 0)"
    by simp
  then show ?case by blast
next
  case (Suc n)
  show ?case
  proof (cases "m < 2 ^ 52")
    case True
    from Suc.IH [of "2 * m" "s / 2"] obtain e where
      e: "fst (normalise n (2 * m) (s / 2)) = 2 * m * 2 powi e"
         "snd (normalise n (2 * m) (s / 2)) = s / 2 * 2 powi (- e)" by blast
    have "fst (normalise (Suc n) m s) = 2 * m * 2 powi e" using True e(1) by simp
    also have "\<dots> = m * 2 powi (e + 1)" by (simp add: power_int_add_1)
    finally have A: "fst (normalise (Suc n) m s) = m * 2 powi (e + 1)" .
    have "snd (normalise (Suc n) m s) = s / 2 * 2 powi (- e)" using True e(2) by simp
    also have "\<dots> = s * 2 powi (- (e + 1))" unfolding powi_neg_Suc by simp
    finally have B: "snd (normalise (Suc n) m s) = s * 2 powi (- (e + 1))" .
    from A B show ?thesis by blast
  next
    case False
    show ?thesis
    proof (cases "2 ^ 53 \<le> m")
      case True
      from Suc.IH [of "m / 2" "2 * s"] obtain e where
        e: "fst (normalise n (m / 2) (2 * s)) = m / 2 * 2 powi e"
           "snd (normalise n (m / 2) (2 * s)) = 2 * s * 2 powi (- e)" by blast
      have "fst (normalise (Suc n) m s) = m / 2 * 2 powi e" using True False e(1) by simp
      also have "\<dots> = m * 2 powi (e - 1)" unfolding powi_pred by simp
      finally have A: "fst (normalise (Suc n) m s) = m * 2 powi (e - 1)" .
      have "snd (normalise (Suc n) m s) = 2 * s * 2 powi (- e)" using True False e(2) by simp
      also have "\<dots> = s * 2 powi (- (e - 1))" unfolding powi_neg_pred by simp
      finally have B: "snd (normalise (Suc n) m s) = s * 2 powi (- (e - 1))" .
      from A B show ?thesis by blast
    next
      case F2: False
      have "fst (normalise (Suc n) m s) = m * 2 powi 0 \<and>
          snd (normalise (Suc n) m s) = s * 2 powi (- 0)"
        using False F2 by simp
      then show ?thesis by blast
    qed
  qed
qed

lemma roundDouble_mantissa:
  assumes "0 < x" "normalRange x"
  shows "\<exists>e. 2 ^ 52 \<le> x * 2 powi e \<and> x * 2 powi e < 2 ^ 53 \<and>
             roundDouble x = of_int (roundHalfEven (x * 2 powi e)) * 2 powi (- e)"
proof -
  from normalise_track [of 2200 x 1] obtain e where
    e: "fst (normalise 2200 x 1) = x * 2 powi e" "snd (normalise 2200 x 1) = 2 powi (- e)"
    by auto
  have "2 ^ 52 / 2 ^ 2200 \<le> x" "x < 2 ^ 53 * 2 ^ 2200"
    using assms by (simp_all add: normalRange_def)
  from normalise_range [OF this, of 1] have
    "2 ^ 52 \<le> fst (normalise 2200 x 1)" "fst (normalise 2200 x 1) < 2 ^ 53" by simp_all
  then have "2 ^ 52 \<le> x * 2 powi e" "x * 2 powi e < 2 ^ 53" by (simp_all add: e)
  moreover have "roundDouble x = of_int (roundHalfEven (x * 2 powi e)) * 2 powi (- e)"
    using assms(1) e by (simp add: roundDouble_def case_prod_beta Let_def)
  ultimately show ?thesis by blast
qed

lemma binade_unique:
  assumes "0 < (x::rat)" "2 ^ 52 \<le> x * 2 powi e" "x * 2 powi e < 2 ^ 53"
    "2 ^ 52 \<le> x * 2 powi k" "x * 2 powi k < 2 ^ 53"
  shows "e = k"
proof -
  have less: False if "a < b" "2 ^ 52 \<le> x * 2 powi a" "x * 2 powi b < 2 ^ 53" for a b :: int
  proof -
    have "(2::rat) powi (a + 1) \<le> 2 powi b" using that(1) by (intro power_int_increasing) simp_all
    then have "x * 2 powi (a + 1) \<le> x * 2 powi b" using assms(1) by (intro mult_left_mono) simp_all
    moreover have "x * 2 powi (a + 1) = 2 * (x * 2 powi a)" by (simp add: power_int_add_1)
    ultimately have "2 * (x * 2 powi a) < 2 ^ 53" using that(3) by linarith
    with that(2) show False by simp
  qed
  show ?thesis using less [of e k] less [of k e] assms(2-5) by (cases e k rule: linorder_cases) auto
qed

lemma roundDouble_scaled:
  assumes "0 < x" "2 ^ 52 \<le> x * 2 powi k" "x * 2 powi k < 2 ^ 53"
    and "normalRange x"
  shows "roundDouble x = of_int (roundHalfEven (x * 2 powi k)) * 2 powi (- k)"
proof -
  from roundDouble_mantissa [OF assms(1,4)] obtain e where
    e: "2 ^ 52 \<le> x * 2 powi e" "x * 2 powi e < 2 ^ 53"
       "roundDouble x = of_int (roundHalfEven (x * 2 powi e)) * 2 powi (- e)" by blast
  from binade_unique [OF assms(1) e(1,2) assms(2,3)] e(3) show ?thesis by simp
qed

lemma roundDouble_minus: "roundDouble (- x) = - roundDouble x"
  by (simp add: roundDouble_def case_prod_beta Let_def)

lemma roundDouble_exact_pos:
  assumes "x = of_int z * 2 powi a" "0 < z" "z < 2 ^ 53"
    and "normalRange x"
  shows "roundDouble x = x"
proof -
  have x: "0 < x" using assms(1,2) by simp
  from roundDouble_mantissa [OF x assms(4)] obtain e where
    e: "2 ^ 52 \<le> x * 2 powi e" "x * 2 powi e < 2 ^ 53"
       "roundDouble x = of_int (roundHalfEven (x * 2 powi e)) * 2 powi (- e)" by blast
  have m: "x * 2 powi e = of_int z * 2 powi (a + e)"
    by (simp add: assms(1) power_int_add)
  have "0 \<le> a + e"
  proof (rule ccontr)
    assume "\<not> 0 \<le> a + e"
    then have "a + e \<le> - 1" by simp
    then have "(2::rat) powi (a + e) \<le> 2 powi (- 1)" by (intro power_int_increasing) simp_all
    then have "of_int z * (2::rat) powi (a + e) \<le> of_int z * 2 powi (- 1)"
      using assms(2) by (intro mult_left_mono) simp_all
    moreover have "(of_int z :: rat) < 2 ^ 53" using assms(3) by (metis of_int_less_numeral_power_cancel_iff)
    ultimately have "of_int z * (2::rat) powi (a + e) < 2 ^ 52" by (simp add: power_int_minus)
    with e(1) m show False by simp
  qed
  then obtain j where j: "a + e = int j" by (metis nonneg_int_cases)
  have "x * 2 powi e = of_int (z * 2 ^ j)" by (simp add: m j)
  then have "of_int (roundHalfEven (x * 2 powi e)) = x * 2 powi e"
    by (simp only: roundHalfEven_of_int)
  then have "roundDouble x = x * 2 powi e * 2 powi (- e)" by (simp only: e(3))
  also have "\<dots> = x" by (simp add: power_int_minus field_simps)
  finally show ?thesis .
qed

lemma roundDouble_of_int:
  assumes "\<bar>z\<bar> < 2 ^ 53"
  shows "roundDouble (of_int z) = of_int z"
proof -
  have pos: "roundDouble (of_int y) = of_int y" if "0 < y" "y < 2 ^ 53" for y :: int
  proof (rule roundDouble_exact_pos [of _ y 0])
    show "(of_int y :: rat) = of_int y * 2 powi 0" by simp
    show "0 < y" "y < 2 ^ 53" by (rule that)+
    have "(1::rat) \<le> of_int y" using that(1) by simp
    moreover have "(of_int y :: rat) < 2 ^ 53" using that(2) by (metis of_int_less_numeral_power_cancel_iff)
    moreover have "(2 ^ 53 :: rat) \<le> 2 ^ 200" by (intro power_increasing) simp_all
    moreover have "(1 / 2 ^ 200 :: rat) \<le> 1" by simp
    ultimately show "normalRange (of_int y :: rat)" by (intro normalRangeI) simp_all
  qed
  consider "z = 0" | "0 < z" | "z < 0" by linarith
  then show ?thesis
  proof cases
    case 1
    then show ?thesis by (simp add: roundDouble_def)
  next
    case 2
    with assms pos [of z] show ?thesis by simp
  next
    case 3
    with assms pos [of "- z"] roundDouble_minus [of "of_int (- z)"] show ?thesis by simp
  qed
qed

subsection \<open>Formatting\<close>

lemma toFixed2_near: "\<bar>of_int (toFixed2 x) / 100 - x\<bar> \<le> 1 / 200"
proof -
  have near: "\<bar>of_int \<lfloor>y + 1 / 2\<rfloor> - y\<bar> \<le> 1 / 2" for y :: rat
    by linarith
  show ?thesis
  proof (cases "x < 0")
    case True
    from near [of "- x * 100"] True show ?thesis
      by (simp add: toFixed2_def abs_if split: if_splits) 
  next
    case False
    from near [of "x * 100"] False show ?thesis
      by (simp add: toFixed2_def abs_if split: if_splits) 
  qed
qed


lemma toFixed2_quotient:
  assumes "0 \<le> a" "0 < b"
  shows "toFixed2 (of_int a / of_int b) = (200 * a + b) div (2 * b)"
proof -
  have "of_int a / of_int b * 100 + 1 / 2 = (of_int (200 * a + b) :: rat) / of_int (2 * b)"
    using assms by (simp add: field_simps)
  then have "\<lfloor>of_int a / of_int b * 100 + 1 / 2 :: rat\<rfloor> = (200 * a + b) div (2 * b)"
    by (simp only: floor_divide_of_int_eq)
  moreover have "\<not> (of_int a / of_int b :: rat) < 0"
    using assms by (simp add: not_less)
  ultimately show ?thesis by (simp add: toFixed2_def)
qed

lemma pow1024_powi: "0 \<le> i \<Longrightarrow> pow1024 i = 2 powi (10 * i)"
proof -
  assume i: "0 \<le> i"
  have "(1024::rat) ^ nat i = (2 ^ 10) ^ nat i" by simp
  also have "\<dots> = 2 ^ (10 * nat i)" by (simp only: power_mult)
  also have "\<dots> = 2 powi (int (10 * nat i))" by (simp only: power_int_of_nat)
  also have "int (10 * nat i) = 10 * i" using i by simp
  finally show ?thesis using i by (simp add: pow1024_def)
qed

lemma fdiv_pow1024:
  assumes "0 < z" "z < 2 ^ 53" "c \<le> 100" "b = z * 2 ^ c" "0 \<le> i" "i < 9"
  shows "fdiv (of_int b) (pow1024 i) = of_int b / 1024 ^ nat i"
proof -
  define x :: rat where "x = of_int b / 1024 ^ nat i"
  have p: "pow1024 i = 1024 ^ nat i" using assms(5) by (simp add: pow1024_def)
  have "x = of_int z * 2 ^ c / 2 powi (10 * i)"
    using pow1024_powi [OF assms(5)] by (simp add: x_def assms(4) p)
  also have "\<dots> = of_int z * (2 powi (int c) * 2 powi (- (10 * i)))"
    by (simp add: power_int_minus field_simps)
  also have "2 powi (int c) * (2::rat) powi (- (10 * i)) = 2 powi (int c + - (10 * i))"
    by (rule power_int_add [symmetric]) simp
  finally have form: "x = of_int z * 2 powi (int c + - (10 * i))" .
  have z1: "(1::rat) \<le> of_int z" using assms(1) by simp
  have zu: "(of_int z :: rat) < 2 ^ 53" using assms(2) by (metis of_int_less_numeral_power_cancel_iff)
  have i8: "nat i \<le> 8" using assms(6) by simp
  have plo: "(1024::rat) ^ nat i \<le> 1024 ^ 8" using i8 by (intro power_increasing) simp_all
  have c1: "(1::rat) \<le> 2 ^ c" by simp
  have cu: "(2::rat) ^ c \<le> 2 ^ 100" using assms(3) by (intro power_increasing) simp_all
  have bl: "(1::rat) \<le> of_int b"
  proof -
    have "1 * 1 \<le> (of_int z :: rat) * 2 ^ c" using z1 c1 by (intro mult_mono) simp_all
    then show ?thesis by (simp add: assms(4))
  qed
  have bu: "(of_int b :: rat) \<le> 2 ^ 53 * 2 ^ 100"
  proof -
    have "(of_int z :: rat) * 2 ^ c \<le> 2 ^ 53 * 2 ^ 100" using zu cu by (intro mult_mono) simp_all
    then show ?thesis by (simp add: assms(4))
  qed
  have x1: "1 / 2 ^ 200 \<le> x"
  proof -
    have "(1024::rat) ^ 8 = 2 ^ 80" by simp
    moreover have "(2::rat) ^ 80 \<le> 2 ^ 200" by (intro power_increasing) simp_all
    ultimately have "(1024::rat) ^ nat i \<le> 2 ^ 200" using plo by linarith
    then have "(1 / 2 ^ 200 :: rat) \<le> 1 / 1024 ^ nat i" by (intro divide_left_mono) simp_all
    also have "\<dots> \<le> of_int b / 1024 ^ nat i" using bl by (intro divide_right_mono) simp_all
    finally show ?thesis by (simp add: x_def)
  qed
  have x2: "x \<le> 2 ^ 200"
  proof -
    have "(1::rat) \<le> 1024 ^ nat i" by simp
    then have "of_int b / 1024 ^ nat i \<le> (of_int b :: rat) / 1" using bl
      by (intro divide_left_mono) simp_all
    then have "x \<le> of_int b" by (simp add: x_def)
    also have "\<dots> \<le> 2 ^ 53 * 2 ^ 100" by (rule bu)
    also have "\<dots> = (2 ^ 153 :: rat)" by (simp flip: power_add)
    also have "\<dots> \<le> 2 ^ 200" by (intro power_increasing) simp_all
    finally show ?thesis .
  qed
  have "0 < x" using bl by (simp add: x_def)
  with x1 x2 have nr: "normalRange x" by (intro normalRangeI) simp_all
  from roundDouble_exact_pos [OF form assms(1,2) nr]
  show ?thesis by (simp add: fdiv_def p x_def)
qed

lemma unitIndex_bracket:
  assumes "0 \<le> i" "i < 9" "0 < lg 1024"
    and "of_int i + 1 / 100 \<le> lg (of_int b) / lg 1024"
    and "lg (of_int b) / lg 1024 \<le> of_int i + 99 / 100"
  shows "unitIndex lg b = i"
proof -
  define r where "r = lg (of_int b) / lg 1024"
  have i: "(0::rat) \<le> of_int i" "(of_int i :: rat) \<le> 8"
    using assms(1,2) by simp_all
  have r: "1 / 100 \<le> r" "r \<le> 9" using assms(4,5) i unfolding r_def by linarith+
  have "(1 / 2 ^ 200 :: rat) \<le> 1 / 2 ^ 7" by (intro divide_left_mono power_increasing) simp_all
  also have "\<dots> \<le> 1 / 100" by simp
  finally have "1 / 2 ^ 200 \<le> \<bar>r\<bar>" using r(1) by simp
  moreover have "(9::rat) \<le> 2 ^ 200"
  proof -
    have "(9::rat) \<le> 2 ^ 4" by simp
    also have "\<dots> \<le> 2 ^ 200" by (intro power_increasing) simp_all
    finally show ?thesis .
  qed
  then have "\<bar>r\<bar> \<le> 2 ^ 200" using r by simp
  ultimately have "normalRange r" by (rule normalRangeI)
  from roundDouble_error [OF this] have "\<bar>roundDouble r - r\<bar> \<le> r / 2 ^ 53"
    using r(1) by simp
  also have "\<dots> \<le> 9 / 2 ^ 53" using r(2) by (intro divide_right_mono) simp_all
  also have "\<dots> < 1 / 100" by simp
  finally have "\<bar>roundDouble r - r\<bar> < 1 / 100" .
  with assms(4,5) have "of_int i \<le> roundDouble r" "roundDouble r < of_int i + 1"
    unfolding r_def by linarith+
  then have "\<lfloor>roundDouble r\<rfloor> = i" by (intro floor_unique) simp_all
  then show ?thesis by (simp add: unitIndex_def fdiv_def r_def)
qed

lemma formatBytes_index:
  assumes "0 < z" "z < 2 ^ 53" "c \<le> 100" "b = z * 2 ^ c" "0 \<le> i" "i < 9"
    and idx: "unitIndex lg b = i"
  shows "formatBytes lg b =
           showHundredths (nat ((200 * b + 1024 ^ nat i) div (2 * 1024 ^ nat i))) @ '' '' @
           sizes ! nat i"
proof -
  have b: "0 < b" using assms(1,4) by simp
  have q: "fdiv (of_int b) (pow1024 i) = of_int b / of_int (1024 ^ nat i)"
    using fdiv_pow1024 [OF assms(1-6)] by simp
  have "toFixed2 (of_int b / of_int (1024 ^ nat i)) =
          (200 * b + 1024 ^ nat i) div (2 * 1024 ^ nat i)"
    using b by (intro toFixed2_quotient) simp_all
  moreover have "sizeName i = sizes ! nat i"
    using assms(5,6) by (simp add: sizeName_def sizes_def)
  ultimately show ?thesis
    using b by (simp add: formatBytes_def Let_def idx q)
qed

lemma formatBytes_eval:
  assumes "0 < z" "z < 2 ^ 53" "c \<le> 100" "b = z * 2 ^ c" "0 \<le> i" "i < 9" "0 < lg 1024"
    and "of_int i + 1 / 100 \<le> lg (of_int b) / lg 1024"
    and "lg (of_int b) / lg 1024 \<le> of_int i + 99 / 100"
  shows "formatBytes lg b =
           showHundredths (nat ((200 * b + 1024 ^ nat i) div (2 * 1024 ^ nat i))) @ '' '' @
           sizes ! nat i"
  by (rule formatBytes_index [OF assms(1-6) unitIndex_bracket [OF assms(5-9)]])






lemma formatBytes_5GB: "formatBytes exampleLog 5368709120 = ''5 GB''"
  by (subst formatBytes_eval [of 5 30 _ 3])
    (simp_all add: showHundredths_def showNat.simps digitChar_def sizes_def exampleLog_def)








subsection \<open>The example world\<close>

lemma parse_exampleListing: "parseRemotes exampleListing = [''gdrive'', ''s3'']"
  by (simp add: exampleListing_def parseRemotes_def trim_def isWhiteSpace_def dropTrailingColon_def)

lemma cachedState_value:
  "cachedState =
     \<lparr>remoteCache =
        \<lparr>data =
           [(''gdrive:'', \<lparr>bytes = 5368709120, count = Some 150, timestamp = 1710000002000,
                           calculationDurationMs = 1000, error = None\<rparr>),
            (''s3:'', \<lparr>bytes = 5368709120, count = Some 150, timestamp = 1710000003000,
                       calculationDurationMs = 1000, error = None\<rparr>)],
         lastUpdated = Some 1710000003000, updateInProgress = False, updateStartTime = None\<rparr>,
      localCache = emptyCache, remoteCacheTemp = [], localCacheTemp = [],
      localSizeHistory = [], tick = 3\<rparr>"
  by (simp add: cachedState_def updateRemoteCache_def remoteTry_def remoteFinally_def
      getAvailableRemotes_def exampleWorld_def initialState_def emptyCache_def bump_def now_def
      parse_exampleListing truthyString_def orZero_def storeProbe_def Let_def)

subsection \<open>A cycle between its awaits\<close>

lemma resumeAlone_returned: "resumeAlone w n (None, s) = (None, s)"
  by (cases n) simp_all

lemma remoteNext_alone:
  "resumeAlone w (Suc (length rest)) (remoteNext w rest s) =
     (None,
      remoteFinally
        ((remoteLoop w rest s)
           \<lparr>remoteCache := (remoteCache (remoteLoop w rest s))
              \<lparr>lastUpdated := Some (now w (remoteLoop w rest s))\<rparr>\<rparr>))"
proof (induction rest arbitrary: s)
  case Nil
  show ?case by (simp add: remoteNext_def)
next
  case (Cons remote rest)
  let ?s1 = "storeProbe w remote (now w s) (getRcloneSize w (tick s) (remote @ '':'')) (bump s)"
  have "resumeAlone w (Suc (length (remote # rest))) (remoteNext w (remote # rest) s) =
          resumeAlone w (Suc (length rest)) (remoteNext w rest ?s1)"
    by (simp add: remoteNext_def remoteResume_def)
  moreover have "remoteLoop w (remote # rest) s = remoteLoop w rest ?s1"
    by (simp add: Let_def)
  ultimately show ?case using Cons.IH [of ?s1] by simp
qed

text \<open>Resumed with nothing in between, the cycle returns in the state that
  \<open>updateRemoteCache\<close> gives.\<close>

lemma updateRemoteCache_alone:
  "\<exists>n. resumeAlone w n (Some (fst (remoteStart w s)), snd (remoteStart w s)) =
         (None, updateRemoteCache w s)"
proof (cases "getAvailableRemotes w (tick s)")
  case (Inl e)
  then have "resumeAlone w (Suc 0) (Some (fst (remoteStart w s)), snd (remoteStart w s)) =
               (None, updateRemoteCache w s)"
    by (simp add: remoteStart_def remoteResume_def updateRemoteCache_def remoteTry_def Let_def)
  then show ?thesis by blast
next
  case (Inr remotes)
  let ?s0 = "bump (s\<lparr>remoteCacheTemp := data (remoteCache s)\<rparr>)"
  have "resumeAlone w (Suc (Suc (length remotes)))
          (Some (fst (remoteStart w s)), snd (remoteStart w s)) =
        resumeAlone w (Suc (length remotes)) (remoteNext w remotes ?s0)"
    using Inr by (simp add: remoteStart_def remoteResume_def Let_def)
  also have "\<dots> = (None, updateRemoteCache w s)"
    unfolding remoteNext_alone using Inr
    by (simp add: updateRemoteCache_def remoteTry_def Let_def)
  finally show ?thesis by blast
qed

subsection \<open>Guaranteed release of the refresh flag\<close>

lemma remoteFinally_clears:
  "\<not> updateInProgress (remoteCache (remoteFinally s)) \<and>
   updateStartTime (remoteCache (remoteFinally s)) = None"
  by (simp add: remoteFinally_def)

lemma localFinally_clears:
  "\<not> updateInProgress (localCache (localFinally s)) \<and>
   updateStartTime (localCache (localFinally s)) = None"
  by (simp add: localFinally_def)

text \<open>The same for a cycle that other tasks interrupted: the resumption in which it
  returns leaves the flag and the start time cleared.\<close>

lemma remoteResume_return_clears:
  assumes "fst (remoteResume w frame s) = None"
  shows "\<not> updateInProgress (remoteCache (snd (remoteResume w frame s))) \<and>
         updateStartTime (remoteCache (snd (remoteResume w frame s))) = None"
proof -
  from assms obtain s' where "remoteResume w frame s = (None, remoteFinally s')"
    by (auto simp: remoteResume_def remoteNext_def split: remoteFrame.splits sum.splits list.splits)
  then show ?thesis by (simp add: remoteFinally_clears)
qed

text \<open>
  Claim C8. When \<open>updateRemoteCache\<close> or \<open>updateLocalCache\<close> returns, the store's
  \<open>updateInProgress\<close> is false and its \<open>updateStartTime\<close> is null, whatever the world
  answered during the cycle: also when the listing failed and the \<open>try\<close> block was left by
  the error (\<open>fst (remoteTry w s) = Some e\<close>), and when the local store was empty.
\<close>

theorem cycle_releases_flag:
  "\<not> updateInProgress (remoteCache (updateRemoteCache w s)) \<and>
   updateStartTime (remoteCache (updateRemoteCache w s)) = None \<and>
   \<not> updateInProgress (localCache (updateLocalCache w s)) \<and>
   updateStartTime (localCache (updateLocalCache w s)) = None"
  unfolding updateRemoteCache_def updateLocalCache_def
  using remoteFinally_clears localFinally_clears by blast

subsection \<open>Last change of a local directory\<close>

lemma scanChange_Some:
  "scanChange h n = Some i \<Longrightarrow>
     0 < i \<and> i \<le> n \<and> sampleBytes (h ! i) \<noteq> sampleBytes (h ! (i - 1)) \<and>
     (\<forall>j. i < j \<and> j \<le> n \<longrightarrow> sampleBytes (h ! j) = sampleBytes (h ! (j - 1)))"
proof (induction n)
  case 0
  then show ?case by simp
next
  case (Suc n)
  show ?case
  proof (cases "sampleBytes (h ! Suc n) \<noteq> sampleBytes (h ! n)")
    case True
    with Suc.prems have "i = Suc n" by simp
    with True show ?thesis by simp
  next
    case False
    with Suc.prems have "scanChange h n = Some i" by simp
    from Suc.IH [OF this] False show ?thesis
      by (auto simp: le_Suc_eq)
  qed
qed

lemma scanChange_None:
  "scanChange h n = None \<Longrightarrow>
     (\<forall>j. 0 < j \<and> j \<le> n \<longrightarrow> sampleBytes (h ! j) = sampleBytes (h ! (j - 1)))"
proof (induction n)
  case 0
  then show ?case by simp
next
  case (Suc n)
  then show ?case
    by (auto simp: le_Suc_eq split: if_splits)
qed

lemma scanChange_newest:
  assumes "0 < i" "i \<le> n" "sampleBytes (h ! i) \<noteq> sampleBytes (h ! (i - 1))"
    and later: "\<forall>j. i < j \<and> j \<le> n \<longrightarrow> sampleBytes (h ! j) = sampleBytes (h ! (j - 1))"
  shows "scanChange h n = Some i"
proof (cases "scanChange h n")
  case None
  from scanChange_None [OF None] assms(1-3) show ?thesis by blast
next
  case (Some k)
  note k = scanChange_Some [OF Some]
  have "\<not> i < k" using k later by blast
  moreover have "\<not> k < i" using k assms(1-3) by blast
  ultimately show ?thesis using Some by simp
qed

lemma setMinutes0_hour:
  "setMinutes0 tz t \<le> t \<and> t < setMinutes0 tz t + 3600000 \<and>
   (setMinutes0 tz t + tz) mod 3600000 = 0"
proof -
  have "0 \<le> (t + tz) mod 3600000" "(t + tz) mod 3600000 < 3600000" by simp_all
  moreover have "(t - (t + tz) mod 3600000 + tz) mod 3600000 = 0"
    by (metis add_diff_eq diff_add_eq minus_mod_eq_mult_div mod_mult_self1_is_0 mult.commute)
  ultimately show ?thesis by (simp add: setMinutes0_def)
qed

lemma lastModifiedOf_None:
  "lastModifiedOf tz h = None \<longleftrightarrow> (h = None \<or> h = Some [])"
  by (auto simp: lastModifiedOf_def split: option.splits)

lemma lastModifiedOf_change:
  assumes "0 < i" "i < length h" "sampleBytes (h ! i) \<noteq> sampleBytes (h ! (i - 1))"
    and "\<forall>j. i < j \<and> j < length h \<longrightarrow> sampleBytes (h ! j) = sampleBytes (h ! (j - 1))"
  shows "lastModifiedOf tz (Some h) = Some (setMinutes0 tz (sampleTimestamp (h ! i)))"
proof -
  have "scanChange h (length h - 1) = Some i"
    using assms by (intro scanChange_newest) auto
  moreover have "h \<noteq> []" using assms(2) by auto
  ultimately show ?thesis by (simp add: lastModifiedOf_def)
qed

lemma lastModifiedOf_unchanged:
  assumes "h \<noteq> []"
    and "\<forall>j. 0 < j \<and> j < length h \<longrightarrow> sampleBytes (h ! j) = sampleBytes (h ! (j - 1))"
  shows "lastModifiedOf tz (Some h) = Some (setMinutes0 tz (sampleTimestamp (h ! 0)))"
proof (cases "scanChange h (length h - 1)")
  case None
  then show ?thesis using assms(1) by (simp add: lastModifiedOf_def)
next
  case (Some k)
  from scanChange_Some [OF Some] assms(1) have
    "0 < k" "k < length h" "sampleBytes (h ! k) \<noteq> sampleBytes (h ! (k - 1))"
    by (auto simp: Suc_le_eq)
  with assms(2) show ?thesis by blast
qed

text \<open>
  Claim C6. \<open>getLastModified\<close> returns null exactly when the path has no history or an
  empty one. Otherwise it returns the timestamp, with the minutes, seconds and
  milliseconds of its local time zeroed, of the newest sample whose byte count differs
  from the sample before it, or of the oldest sample when no two consecutive samples
  differ. For the samples \<open>(t0, 100), (t1, 100), (t2, 200), (t3, 200)\<close> that is \<open>t2\<close> at the
  start of its hour. The truncated instant is at most an hour before the sample.
\<close>

theorem getLastModified_spec:
  "(getLastModified w s p = None \<longleftrightarrow>
      map_of (localSizeHistory s) p = None \<or> map_of (localSizeHistory s) p = Some []) \<and>
   (\<forall>h i. map_of (localSizeHistory s) p = Some h \<and> 0 < i \<and> i < length h \<and>
          sampleBytes (h ! i) \<noteq> sampleBytes (h ! (i - 1)) \<and>
          (\<forall>j. i < j \<and> j < length h \<longrightarrow> sampleBytes (h ! j) = sampleBytes (h ! (j - 1))) \<longrightarrow>
          getLastModified w s p = Some (setMinutes0 (tzOffset w) (sampleTimestamp (h ! i)))) \<and>
   (\<forall>h. map_of (localSizeHistory s) p = Some h \<and> h \<noteq> [] \<and>
        (\<forall>j. 0 < j \<and> j < length h \<longrightarrow> sampleBytes (h ! j) = sampleBytes (h ! (j - 1))) \<longrightarrow>
        getLastModified w s p = Some (setMinutes0 (tzOffset w) (sampleTimestamp (h ! 0)))) \<and>
   (\<forall>t0 t1 t2 t3.
        map_of (localSizeHistory s) p =
          Some [\<lparr>sampleTimestamp = t0, sampleBytes = 100\<rparr>, \<lparr>sampleTimestamp = t1, sampleBytes = 100\<rparr>,
                \<lparr>sampleTimestamp = t2, sampleBytes = 200\<rparr>, \<lparr>sampleTimestamp = t3, sampleBytes = 200\<rparr>] \<longrightarrow>
        getLastModified w s p = Some (setMinutes0 (tzOffset w) t2)) \<and>
   (\<forall>t. setMinutes0 (tzOffset w) t \<le> t \<and> t < setMinutes0 (tzOffset w) t + 3600000 \<and>
        (setMinutes0 (tzOffset w) t + tzOffset w) mod 3600000 = 0)"
proof (intro conjI allI impI)
  show "getLastModified w s p = None \<longleftrightarrow>
      map_of (localSizeHistory s) p = None \<or> map_of (localSizeHistory s) p = Some []"
    by (simp add: getLastModified_def lastModifiedOf_None)
next
  fix h i
  assume "map_of (localSizeHistory s) p = Some h \<and> 0 < i \<and> i < length h \<and>
          sampleBytes (h ! i) \<noteq> sampleBytes (h ! (i - 1)) \<and>
          (\<forall>j. i < j \<and> j < length h \<longrightarrow> sampleBytes (h ! j) = sampleBytes (h ! (j - 1)))"
  then show "getLastModified w s p = Some (setMinutes0 (tzOffset w) (sampleTimestamp (h ! i)))"
    by (simp add: getLastModified_def lastModifiedOf_change)
next
  fix h
  assume "map_of (localSizeHistory s) p = Some h \<and> h \<noteq> [] \<and>
        (\<forall>j. 0 < j \<and> j < length h \<longrightarrow> sampleBytes (h ! j) = sampleBytes (h ! (j - 1)))"
  then show "getLastModified w s p = Some (setMinutes0 (tzOffset w) (sampleTimestamp (h ! 0)))"
    by (simp add: getLastModified_def lastModifiedOf_unchanged)
next
  fix t0 t1 t2 t3 :: int
  assume "map_of (localSizeHistory s) p =
          Some [\<lparr>sampleTimestamp = t0, sampleBytes = 100\<rparr>, \<lparr>sampleTimestamp = t1, sampleBytes = 100\<rparr>,
                \<lparr>sampleTimestamp = t2, sampleBytes = 200\<rparr>, \<lparr>sampleTimestamp = t3, sampleBytes = 200\<rparr>]"
  then show "getLastModified w s p = Some (setMinutes0 (tzOffset w) t2)"
    by (simp add: getLastModified_def lastModifiedOf_def numeral_3_eq_3)
next
  fix t
  show "setMinutes0 (tzOffset w) t \<le> t" "t < setMinutes0 (tzOffset w) t + 3600000"
    "(setMinutes0 (tzOffset w) t + tzOffset w) mod 3600000 = 0"
    using setMinutes0_hour [of "tzOffset w" t] by simp_all
qed

theorem getLastModified_spec_witness:
  "map_of (localSizeHistory historyState) ''/data'' = Some exampleHistory \<and>
   getLastModified exampleWorld historyState ''/data'' = Some 1709992800000 \<and>
   getLastModified exampleWorld historyState ''/other'' = None"
proof -
  have hist: "map_of (localSizeHistory historyState) ''/data'' =
          Some [\<lparr>sampleTimestamp = 1709986200000, sampleBytes = 100\<rparr>,
                \<lparr>sampleTimestamp = 1709990400000, sampleBytes = 100\<rparr>,
                \<lparr>sampleTimestamp = 1709994600000, sampleBytes = 200\<rparr>,
                \<lparr>sampleTimestamp = 1709998800000, sampleBytes = 200\<rparr>]"
    by (simp add: historyState_def exampleHistory_def)
  have none: "map_of (localSizeHistory historyState) ''/other'' = None"
    by (simp add: historyState_def)
  have tz: "setMinutes0 (tzOffset exampleWorld) 1709994600000 = 1709992800000"
    by (simp add: setMinutes0_def exampleWorld_def)
  from getLastModified_spec [of exampleWorld historyState "''/data''"] hist
  have "getLastModified exampleWorld historyState ''/data'' =
          Some (setMinutes0 (tzOffset exampleWorld) 1709994600000)"
    by blast
  moreover from getLastModified_spec [of exampleWorld historyState "''/other''"] none
  have "getLastModified exampleWorld historyState ''/other'' = None"
    by blast
  ultimately show ?thesis using hist tz by (simp add: exampleHistory_def)
qed

subsection \<open>Comparison requests\<close>

lemma addToLocalCache_remoteCache:
  "remoteCache (snd (addToLocalCache w p s)) = remoteCache s"
  by (simp add: addToLocalCache_def Let_def bump_def split: sum.splits)

lemma resolveLocal_remoteCache:
  "remoteCache (snd (resolveLocal w p s)) = remoteCache s"
  using addToLocalCache_remoteCache [of w p s]
  by (auto simp: resolveLocal_def Let_def bump_def split: option.splits prod.splits sum.splits)

lemma compare_resolved:
  assumes "reqRemotePath req = Some rp" "rp \<noteq> []" "reqLocalPath req = Some lp" "lp \<noteq> []"
    and "existsSync w (tick s) lp"
  shows "compare w req s =
          (case resolveLocal w lp (bump s) of
             (Inl msg, s2) \<Rightarrow> (ServerError msg, s2)
           | (Inr (d, b), s2) \<Rightarrow>
               (case map_of (data (remoteCache s2)) rp of
                  None \<Rightarrow> (NotFound (cacheMiss w s2 rp lp d b), s2)
                | Some e \<Rightarrow> (Ok (comparison w s2 rp lp e d b), s2)))"
  using assms by (simp add: compare_def truthyString_def Let_def)

lemma compare_hit:
  assumes "reqRemotePath req = Some rp" "rp \<noteq> []" "reqLocalPath req = Some lp" "lp \<noteq> []"
    and "existsSync w (tick s) lp"
    and "resolveLocal w lp (bump s) = (Inr (d, b), s')"
    and "map_of (data (remoteCache s)) rp = Some e"
  shows "compare w req s = (Ok (comparison w s' rp lp e d b), s')"
proof -
  have "remoteCache s' = remoteCache s"
    using resolveLocal_remoteCache [of w lp "bump s"] assms(6) by (simp add: bump_def)
  then show ?thesis
    unfolding compare_resolved [OF assms(1-5)] using assms(6,7) by simp
qed

lemma compare_Ok:
  assumes "fst (compare w req s) = Ok c"
  shows "\<exists>rp lp e d b s2. reqRemotePath req = Some rp \<and> reqLocalPath req = Some lp \<and>
           resolveLocal w lp (bump s) = (Inr (d, b), s2) \<and>
           map_of (data (remoteCache s)) rp = Some e \<and> c = comparison w s2 rp lp e d b"
proof -
  from assms obtain rp lp where req: "reqRemotePath req = Some rp" "rp \<noteq> []"
      "reqLocalPath req = Some lp" "lp \<noteq> []" and ex: "existsSync w (tick s) lp"
    by (auto simp: compare_def truthyString_def Let_def split: if_splits option.splits)
  obtain r s2 where res: "resolveLocal w lp (bump s) = (r, s2)" by (cases "resolveLocal w lp (bump s)")
  have rc: "remoteCache s2 = remoteCache s"
    using resolveLocal_remoteCache [of w lp "bump s"] res by (simp add: bump_def)
  from assms show ?thesis
    unfolding compare_resolved [OF req ex] res
    using req rc by (auto simp: res split: sum.splits prod.splits option.splits)
qed

lemma resolveLocal_cached:
  assumes "map_of (data (localCache s)) p = Some e"
  shows "resolveLocal w p s = (Inr (Some e, bytes e), s)"
  using assms by (simp add: resolveLocal_def)

lemma parseFixed2_near:
  "\<bar>parseFixed2 x - x\<bar> \<le> 1 / 200 \<and> (\<exists>n::int. parseFixed2 x = of_int n / 100)"
  using toFixed2_near [of x] by (auto simp: parseFixed2_def)

text \<open>The quotient and the product are each rounded to a double: the product is within
  \<open>2 ^ -45\<close> of the exact quotient, relatively.\<close>

lemma percentage_error:
  assumes "0 \<le> l" "l < 2 ^ 53" "0 < r" "r < 2 ^ 53"
  shows "\<bar>fmul (fdiv (of_int l) (of_int r)) 100 - of_int l / of_int r * 100\<bar> \<le>
           of_int l / of_int r / 2 ^ 45"
proof (cases "l = 0")
  case True
  then show ?thesis by (simp add: fdiv_def fmul_def roundDouble_def)
next
  case False
  define q :: rat where "q = of_int l / of_int r"
  define q' where "q' = roundDouble q"
  define p where "p = roundDouble (q' * 100)"
  have l: "(1::rat) \<le> of_int l" "(of_int l :: rat) \<le> 2 ^ 53"
    using False assms(1,2) by (simp_all add: of_int_le_numeral_power_cancel_iff [symmetric] del: of_int_le_numeral_power_cancel_iff)
  have r: "(1::rat) \<le> of_int r" "(of_int r :: rat) \<le> 2 ^ 53"
    using assms(3,4) by (simp_all add: of_int_le_numeral_power_cancel_iff [symmetric] del: of_int_le_numeral_power_cancel_iff)
  have "1 / 2 ^ 53 \<le> 1 / (of_int r :: rat)"
    using r by (intro divide_left_mono) simp_all
  also have "\<dots> \<le> q" unfolding q_def using l r by (intro divide_right_mono) simp_all
  finally have qlo: "1 / 2 ^ 53 \<le> q" .
  have "q \<le> of_int l / 1" unfolding q_def using l r by (intro divide_left_mono) simp_all
  with l have qhi: "q \<le> 2 ^ 53" by simp
  have small: "(1 / 2 ^ 200 :: rat) \<le> 1 / 2 ^ 60" "(2 ^ 60 :: rat) \<le> 2 ^ 200"
    by (simp_all add: field_simps)
  have "normalRange q"
    using qlo qhi small by (intro normalRangeI) simp_all
  from roundDouble_error [OF this] qlo have e1: "\<bar>q' - q\<bar> \<le> q / 9007199254740992"
    by (simp add: q'_def)
  have qpos: "0 < q" using qlo by simp
  from e1 qpos have q': "q / 2 \<le> q'" "q' \<le> 2 * q" by linarith+
  have "normalRange (q' * 100)"
    using q' qlo qhi small by (intro normalRangeI) simp_all
  from roundDouble_error [OF this] q' qpos
  have e2: "\<bar>p - q' * 100\<bar> \<le> q' * 100 / 9007199254740992"
    by (simp add: p_def)
  from e1 e2 qpos have "\<bar>p - q * 100\<bar> \<le> q / 35184372088832" by linarith
  then have "\<bar>p - q * 100\<bar> \<le> q / 2 ^ 45" by simp
  then show ?thesis by (simp add: p_def q'_def q_def fdiv_def fmul_def)
qed

lemma comparison_fields:
  "remoteBytes (cmpRemote (comparison w s rp lp e d b)) = bytes e"
  "localBytes (cmpLocal (comparison w s rp lp e d b)) = b"
  "differenceBytes (difference (comparison w s rp lp e d b)) = bytes e - b"
  "direction (difference (comparison w s rp lp e d b)) =
     (if bytes e - b > 0 then ''remote-larger''
      else if bytes e - b < 0 then ''local-larger'' else ''equal'')"
  "percentageSynced (syncStatus (comparison w s rp lp e d b)) =
     (if bytes e > 0 then parseFixed2 (fmul (fdiv (of_int b) (of_int (bytes e))) 100) else 0)"
  "isSynced (syncStatus (comparison w s rp lp e d b)) = (bytes e - b = 0)"
  by (simp_all add: comparison_def localInfo_def Let_def)

text \<open>
  Claim C5, amended. When a comparison request is answered with the full payload, the
  remote path is in the remote store and the local size is the one that the handler
  resolved for the local path (the bytes of its entry when the path is cached). The
  payload's remote and local bytes are those two numbers; \<open>difference.bytes\<close> is the remote
  bytes minus the local bytes; \<open>direction\<close> is \<open>remote-larger\<close>, \<open>local-larger\<close> or \<open>equal\<close>
  as the difference is positive, negative or zero; \<open>isSynced\<close> holds exactly when the
  difference is 0; \<open>percentageSynced\<close> is 0 when the remote bytes are not positive and
  otherwise the hundredths nearest to the double \<open>localBytes / remoteBytes * 100\<close>, which
  for byte counts below \<open>2 ^ 53\<close> lies within \<open>2 ^ -45\<close> of the exact quotient, relatively.
\<close>

theorem compare_hit_math:
  assumes "fst (compare w req s) = Ok c"
  shows "\<exists>rp lp e d b s'.
           reqRemotePath req = Some rp \<and> reqLocalPath req = Some lp \<and>
           map_of (data (remoteCache s)) rp = Some e \<and>
           resolveLocal w lp (bump s) = (Inr (d, b), s') \<and>
           (\<forall>e'. map_of (data (localCache s)) lp = Some e' \<longrightarrow> b = bytes e') \<and>
           remoteBytes (cmpRemote c) = bytes e \<and> localBytes (cmpLocal c) = b \<and>
           differenceBytes (difference c) = bytes e - b \<and>
           (0 < differenceBytes (difference c) \<longrightarrow> direction (difference c) = ''remote-larger'') \<and>
           (differenceBytes (difference c) < 0 \<longrightarrow> direction (difference c) = ''local-larger'') \<and>
           (differenceBytes (difference c) = 0 \<longrightarrow> direction (difference c) = ''equal'') \<and>
           isSynced (syncStatus c) = (differenceBytes (difference c) = 0) \<and>
           (bytes e \<le> 0 \<longrightarrow> percentageSynced (syncStatus c) = 0) \<and>
           (0 < bytes e \<longrightarrow>
              percentageSynced (syncStatus c) =
                of_int (toFixed2 (fmul (fdiv (of_int b) (of_int (bytes e))) 100)) / 100 \<and>
              \<bar>percentageSynced (syncStatus c) -
                 fmul (fdiv (of_int b) (of_int (bytes e))) 100\<bar> \<le> 1 / 200 \<and>
              (0 \<le> b \<and> b < 2 ^ 53 \<and> bytes e < 2 ^ 53 \<longrightarrow>
                 \<bar>percentageSynced (syncStatus c) - of_int b / of_int (bytes e) * 100\<bar> \<le>
                   1 / 200 + of_int b / of_int (bytes e) / 2 ^ 45))"
proof -
  from compare_Ok [OF assms] obtain rp lp e d b s' where
    req: "reqRemotePath req = Some rp" "reqLocalPath req = Some lp"
    and res: "resolveLocal w lp (bump s) = (Inr (d, b), s')"
    and hit: "map_of (data (remoteCache s)) rp = Some e"
    and c: "c = comparison w s' rp lp e d b" by blast
  define p where "p = fmul (fdiv (of_int b) (of_int (bytes e))) 100"
  have cached: "\<forall>e'. map_of (data (localCache s)) lp = Some e' \<longrightarrow> b = bytes e'"
  proof (intro allI impI)
    fix e' assume "map_of (data (localCache s)) lp = Some e'"
    then have "map_of (data (localCache (bump s))) lp = Some e'" by (simp add: bump_def)
    from resolveLocal_cached [OF this, of w] res show "b = bytes e'" by simp
  qed
  have pct0: "bytes e \<le> 0 \<longrightarrow> percentageSynced (syncStatus c) = 0"
    by (simp add: c comparison_fields)
  have pct: "percentageSynced (syncStatus c) = of_int (toFixed2 p) / 100" if "0 < bytes e"
    using that by (simp add: c comparison_fields parseFixed2_def p_def)
  have near: "\<bar>percentageSynced (syncStatus c) - p\<bar> \<le> 1 / 200" if "0 < bytes e"
    unfolding pct [OF that] by (rule toFixed2_near)
  have exact: "\<bar>percentageSynced (syncStatus c) - of_int b / of_int (bytes e) * 100\<bar> \<le>
                   1 / 200 + of_int b / of_int (bytes e) / 2 ^ 45"
    if "0 < bytes e" "0 \<le> b \<and> b < 2 ^ 53 \<and> bytes e < 2 ^ 53"
  proof -
    from that have "\<bar>p - of_int b / of_int (bytes e) * 100\<bar> \<le> of_int b / of_int (bytes e) / 2 ^ 45"
      unfolding p_def by (intro percentage_error) simp_all
    with near [OF that(1)] show ?thesis by linarith
  qed
  have rest: "remoteBytes (cmpRemote c) = bytes e" "localBytes (cmpLocal c) = b"
    "differenceBytes (difference c) = bytes e - b"
    "0 < differenceBytes (difference c) \<longrightarrow> direction (difference c) = ''remote-larger''"
    "differenceBytes (difference c) < 0 \<longrightarrow> direction (difference c) = ''local-larger''"
    "differenceBytes (difference c) = 0 \<longrightarrow> direction (difference c) = ''equal''"
    "isSynced (syncStatus c) = (differenceBytes (difference c) = 0)"
    by (simp_all add: c comparison_fields)
  from pct near exact have pos: "0 < bytes e \<longrightarrow>
              percentageSynced (syncStatus c) = of_int (toFixed2 p) / 100 \<and>
              \<bar>percentageSynced (syncStatus c) - p\<bar> \<le> 1 / 200 \<and>
              (0 \<le> b \<and> b < 2 ^ 53 \<and> bytes e < 2 ^ 53 \<longrightarrow>
                 \<bar>percentageSynced (syncStatus c) - of_int b / of_int (bytes e) * 100\<bar> \<le>
                   1 / 200 + of_int b / of_int (bytes e) / 2 ^ 45)"
    by blast
  from req hit res cached rest pct0 pos show ?thesis
    unfolding p_def by blast
qed

lemma quarter_resolveLocal:
  "resolveLocal quarterWorld ''/data'' (bump cachedState) =
     (Inr (Some (dataEntry\<lparr>bytes := 1342177280\<rparr>), 1342177280), quarterState)"
  by (simp add: cachedState_value Let_def bump_def now_def resolveLocal_def
      addToLocalCache_def emptyCache_def quarterWorld_def exampleWorld_def pushHistory_def
      ensureHistory_def has_def historyOf_def quarterState_def dataEntry_def)

lemma quarter_compare:
  "compare quarterWorld exampleRequest cachedState = (Ok quarterComparison, quarterState)"
proof -
  have "compare quarterWorld exampleRequest cachedState =
          (Ok (comparison quarterWorld quarterState ''gdrive:'' ''/data'' gdriveEntry
                 (Some (dataEntry\<lparr>bytes := 1342177280\<rparr>)) 1342177280), quarterState)"
  proof (rule compare_hit [OF _ _ _ _ _ quarter_resolveLocal])
    show "reqRemotePath exampleRequest = Some ''gdrive:''" "''gdrive:'' \<noteq> []"
      "reqLocalPath exampleRequest = Some ''/data''" "''/data'' \<noteq> []"
      by (simp_all add: exampleRequest_def)
    show "existsSync quarterWorld (tick cachedState) ''/data''"
      by (simp add: quarterWorld_def exampleWorld_def)
    show "map_of (data (remoteCache cachedState)) ''gdrive:'' = Some gdriveEntry"
      by (simp add: cachedState_value gdriveEntry_def)
  qed
  then show ?thesis by (simp add: quarterComparison_def)
qed

lemma quarter_percentage: "fmul (fdiv 1342177280 5368709120) 100 = 25"
proof -
  have "(1 / 2 ^ 200 :: rat) \<le> 1 / 4" "(1 / 4 :: rat) \<le> 2 ^ 200"
    by (simp_all add: field_simps)
  then have "normalRange (1 / 4)" by (intro normalRangeI) simp_all
  then have a: "roundDouble (1 / 4) = 1 / 4"
    by (intro roundDouble_exact_pos [of _ 1 "- 2"]) (simp_all add: power_int_minus)
  have b: "roundDouble 25 = 25" using roundDouble_of_int [of 25] by simp
  have "fdiv 1342177280 5368709120 = roundDouble (1 / 4)" by (simp add: fdiv_def)
  then have "fmul (fdiv 1342177280 5368709120) 100 = roundDouble (1 / 4 * 100)"
    by (simp only: a fmul_def)
  also have "\<dots> = roundDouble 25" by simp
  finally show ?thesis by (simp only: b)
qed

lemma toFixed2_25: "toFixed2 25 = 2500"
  using toFixed2_quotient [of 25 1] by simp

theorem compare_hit_math_witness:
  "fst (compare quarterWorld exampleRequest cachedState) = Ok quarterComparison \<and>
   map_of (data (remoteCache cachedState)) ''gdrive:'' = Some gdriveEntry \<and>
   resolveLocal quarterWorld ''/data'' (bump cachedState) =
     (Inr (Some (dataEntry\<lparr>bytes := 1342177280\<rparr>), 1342177280), quarterState) \<and>
   remoteBytes (cmpRemote quarterComparison) = 5368709120 \<and>
   localBytes (cmpLocal quarterComparison) = 1342177280 \<and>
   differenceBytes (difference quarterComparison) = 4026531840 \<and>
   direction (difference quarterComparison) = ''remote-larger'' \<and>
   percentageSynced (syncStatus quarterComparison) = 25 \<and>
   \<not> isSynced (syncStatus quarterComparison)"
proof -
  have ok: "fst (compare quarterWorld exampleRequest cachedState) = Ok quarterComparison"
    by (simp add: quarter_compare)
  have hit: "map_of (data (remoteCache cachedState)) ''gdrive:'' = Some gdriveEntry"
    by (simp add: cachedState_value gdriveEntry_def)
  have req: "reqRemotePath exampleRequest = Some ''gdrive:''"
    "reqLocalPath exampleRequest = Some ''/data''"
    by (simp_all add: exampleRequest_def)
  from compare_hit_math [OF ok] obtain rp lp e d b s' where
    f: "reqRemotePath exampleRequest = Some rp" "reqLocalPath exampleRequest = Some lp"
      "map_of (data (remoteCache cachedState)) rp = Some e"
      "resolveLocal quarterWorld lp (bump cachedState) = (Inr (d, b), s')"
    and rb: "remoteBytes (cmpRemote quarterComparison) = bytes e"
    and lb: "localBytes (cmpLocal quarterComparison) = b"
    and diff: "differenceBytes (difference quarterComparison) = bytes e - b"
    and dir: "0 < differenceBytes (difference quarterComparison) \<longrightarrow>
                direction (difference quarterComparison) = ''remote-larger''"
    and syn: "isSynced (syncStatus quarterComparison) =
                (differenceBytes (difference quarterComparison) = 0)"
    and pct: "0 < bytes e \<longrightarrow>
              percentageSynced (syncStatus quarterComparison) =
                of_int (toFixed2 (fmul (fdiv (of_int b) (of_int (bytes e))) 100)) / 100 \<and>
              \<bar>percentageSynced (syncStatus quarterComparison) -
                 fmul (fdiv (of_int b) (of_int (bytes e))) 100\<bar> \<le> 1 / 200 \<and>
              (0 \<le> b \<and> b < 2 ^ 53 \<and> bytes e < 2 ^ 53 \<longrightarrow>
                 \<bar>percentageSynced (syncStatus quarterComparison) -
                    of_int b / of_int (bytes e) * 100\<bar> \<le>
                   1 / 200 + of_int b / of_int (bytes e) / 2 ^ 45)"
    by blast
  from f(1,2) req have "rp = ''gdrive:''" "lp = ''/data''" by simp_all
  with f(3,4) hit quarter_resolveLocal have e: "e = gdriveEntry" and b: "b = 1342177280"
    by simp_all
  have be: "bytes e = 5368709120" by (simp add: e gdriveEntry_def)
  from rb lb diff have vals: "remoteBytes (cmpRemote quarterComparison) = 5368709120"
    "localBytes (cmpLocal quarterComparison) = 1342177280"
    "differenceBytes (difference quarterComparison) = 4026531840"
    by (simp_all add: be b)
  from dir syn vals(3) have ds: "direction (difference quarterComparison) = ''remote-larger''"
    "\<not> isSynced (syncStatus quarterComparison)" by simp_all
  from pct have "percentageSynced (syncStatus quarterComparison) =
      of_int (toFixed2 (fmul (fdiv 1342177280 5368709120) 100)) / 100"
    by (simp add: be b)
  then have "percentageSynced (syncStatus quarterComparison) = 25"
    by (simp add: quarter_percentage toFixed2_25)
  with ok hit quarter_resolveLocal vals ds show ?thesis by simp
qed

lemma roundingState_value:
  "roundingState =
     \<lparr>remoteCache =
        \<lparr>data =
           [(''gdrive:'', \<lparr>bytes = 1000000000007, count = Some 150, timestamp = 1710000002000,
                           calculationDurationMs = 1000, error = None\<rparr>),
            (''s3:'', \<lparr>bytes = 1000000000007, count = Some 150, timestamp = 1710000003000,
                       calculationDurationMs = 1000, error = None\<rparr>)],
         lastUpdated = Some 1710000003000, updateInProgress = False, updateStartTime = None\<rparr>,
      localCache = emptyCache, remoteCacheTemp = [], localCacheTemp = [],
      localSizeHistory = [], tick = 3\<rparr>"
  by (simp add: roundingState_def updateRemoteCache_def remoteTry_def remoteFinally_def
      getAvailableRemotes_def roundingWorld_def exampleWorld_def initialState_def emptyCache_def
      bump_def now_def parse_exampleListing truthyString_def orZero_def storeProbe_def Let_def)

lemma rounding_quotient:
  "fdiv 857150000006 1000000000007 = 7720520841201241 / 9007199254740992"
proof -
  define x :: rat where "x = 857150000006 / 1000000000007"
  have scaled: "x * 2 powi 53 = of_int (857150000006 * 2 ^ 53) / of_int 1000000000007"
    by (simp add: x_def)
  have "(1 / 2 ^ 200 :: rat) \<le> 1 / 2" "(1 :: rat) \<le> 2 ^ 200" by (simp_all add: field_simps)
  then have nr: "normalRange x" by (intro normalRangeI) (simp_all add: x_def)
  have "roundDouble x = of_int (roundHalfEven (x * 2 powi 53)) * 2 powi (- 53)"
    by (rule roundDouble_scaled [OF _ _ _ nr]) (simp_all add: x_def)
  also have "roundHalfEven (x * 2 powi 53) = 7720520841201241"
    unfolding scaled by (subst roundHalfEven_quotient) simp_all
  finally show ?thesis by (simp add: fdiv_def x_def power_int_minus)
qed

lemma rounding_product:
  "fmul (7720520841201241 / 9007199254740992) 100 = 3015828453594235 / 35184372088832"
proof -
  define x :: rat where "x = 7720520841201241 / 9007199254740992 * 100"
  have scaled: "x * 2 powi 46 = of_int (7720520841201241 * 100) / of_int 128"
    by (simp add: x_def)
  have "(1 / 2 ^ 200 :: rat) \<le> 1" "(128 :: rat) \<le> 2 ^ 200" by (simp_all add: field_simps)
  then have nr: "normalRange x" by (intro normalRangeI) (simp_all add: x_def)
  have "roundDouble x = of_int (roundHalfEven (x * 2 powi 46)) * 2 powi (- 46)"
    by (rule roundDouble_scaled [OF _ _ _ nr]) (simp_all add: x_def)
  also have "roundHalfEven (x * 2 powi 46) = 6031656907188470"
    unfolding scaled by (subst roundHalfEven_quotient) simp_all
  finally show ?thesis by (simp add: fmul_def x_def power_int_minus)
qed

lemma rounding_percentage:
  "parseFixed2 (fmul (fdiv 857150000006 1000000000007) 100) = 8572 / 100"
proof -
  have "toFixed2 (of_int 6031656907188470 / of_int (2 ^ 46)) = 8572"
    by (subst toFixed2_quotient) simp_all
  then show ?thesis
    by (simp add: rounding_quotient rounding_product parseFixed2_def)
qed

lemma rounding_resolveLocal:
  "\<exists>d s'. resolveLocal roundingWorld ''/data'' (bump roundingState) =
            (Inr (d, 857150000006), s')"
  by (simp add: roundingState_value Let_def bump_def now_def resolveLocal_def
      addToLocalCache_def emptyCache_def roundingWorld_def exampleWorld_def)

text \<open>
  Claim C5 as stated fails: the percentage is not \<open>localBytes / remoteBytes * 100\<close>
  rounded to two decimals. For 857150000006 local and 1000000000007 remote bytes the
  exact value is below 85.715 and rounds to 85.71; the double that the code computes is
  above 85.715 and \<open>toFixed(2)\<close> prints 85.72, more than half a hundredth away.
\<close>

theorem percentage_double_rounding:
  "\<exists>c. fst (compare roundingWorld exampleRequest roundingState) = Ok c \<and>
        remoteBytes (cmpRemote c) = 1000000000007 \<and>
        localBytes (cmpLocal c) = 857150000006 \<and>
        percentageSynced (syncStatus c) = 8572 / 100 \<and>
        1 / 200 < \<bar>8572 / 100 - 857150000006 / 1000000000007 * 100 :: rat\<bar>"
proof -
  from rounding_resolveLocal obtain d s' where
    res: "resolveLocal roundingWorld ''/data'' (bump roundingState) =
            (Inr (d, 857150000006), s')" by blast
  define e where "e = \<lparr>bytes = 1000000000007, count = Some 150, timestamp = 1710000002000,
                        calculationDurationMs = 1000, error = None\<rparr>"
  have "compare roundingWorld exampleRequest roundingState =
          (Ok (comparison roundingWorld s' ''gdrive:'' ''/data'' e d 857150000006), s')"
  proof (rule compare_hit [OF _ _ _ _ _ res])
    show "reqRemotePath exampleRequest = Some ''gdrive:''" "''gdrive:'' \<noteq> []"
      "reqLocalPath exampleRequest = Some ''/data''" "''/data'' \<noteq> []"
      by (simp_all add: exampleRequest_def)
    show "existsSync roundingWorld (tick roundingState) ''/data''"
      by (simp add: roundingWorld_def exampleWorld_def)
    show "map_of (data (remoteCache roundingState)) ''gdrive:'' = Some e"
      by (simp add: roundingState_value e_def)
  qed
  then have ok: "fst (compare roundingWorld exampleRequest roundingState) =
      Ok (comparison roundingWorld s' ''gdrive:'' ''/data'' e d 857150000006)" by simp
  have be: "bytes e = 1000000000007" by (simp add: e_def)
  have pct: "percentageSynced (syncStatus
      (comparison roundingWorld s' ''gdrive:'' ''/data'' e d 857150000006)) = 8572 / 100"
    using rounding_percentage by (simp add: comparison_fields be)
  have far: "1 / 200 < \<bar>8572 / 100 - 857150000006 / 1000000000007 * 100 :: rat\<bar>" by simp
  show ?thesis
    by (intro exI [of _ "comparison roundingWorld s' ''gdrive:'' ''/data'' e d 857150000006"]
        conjI ok pct far) (simp_all add: comparison_fields be)
qed

lemma addToLocalCache_Inr:
  assumes "addToLocalCache w p s = (Inr e, s')"
  shows "map_of (data (localCache s')) p = Some e"
  using assms
  by (auto simp: addToLocalCache_def Let_def bump_def update_conv' split: if_splits sum.splits)

lemma resolveLocal_entry:
  assumes "resolveLocal w p s = (Inr (Some e, b), s')"
  shows "map_of (data (localCache s')) p = Some e \<and> b = bytes e"
proof (cases "map_of (data (localCache s)) p")
  case (Some c)
  with assms show ?thesis by (auto simp: resolveLocal_def)
next
  case None
  obtain r s1 where add: "addToLocalCache w p s = (r, s1)" by (cases "addToLocalCache w p s")
  show ?thesis
  proof (cases r)
    case (Inl msg)
    with assms None add show ?thesis
      by (simp add: resolveLocal_def Let_def split: sum.splits)
  next
    case (Inr c)
    with assms None add have "c = e" "s1 = s'" "b = bytes e"
      by (auto simp: resolveLocal_def)
    with addToLocalCache_Inr [of w p s c s1] add Inr show ?thesis by simp
  qed
qed

lemma getLastModified_truncated:
  assumes "getLastModified w s p = Some t"
  shows "(t + tzOffset w) mod 3600000 = 0"
proof -
  from assms obtain u where "t = setMinutes0 (tzOffset w) u"
    by (auto simp: getLastModified_def lastModifiedOf_def split: option.splits if_splits)
  with setMinutes0_hour [of "tzOffset w" u] show ?thesis by simp
qed

text \<open>
  Claim C9, amended. For a comparison request with both paths given, an existing local
  path and a remote path that is absent from the remote store, whose local size is
  resolved (from the local store, by \<open>addToLocalCache\<close>, or by the direct computation
  after \<open>addToLocalCache\<close> threw), the response is the 404 cache-miss payload. It carries
  the local bytes, their formatted form and the entry's timestamp (null after the direct
  computation, which stores no entry); an entry that was cached is the one used, and an
  entry that is returned is in the local store afterwards. It carries the last-modified
  time, a whole hour of local time, and its formatted form, and the remote store's
  \<open>lastUpdated\<close>, \<open>updateInProgress\<close> and \<open>updateStartTime\<close>. The payload type has no
  field for a remote size.
\<close>

theorem cache_miss_response:
  assumes "reqRemotePath req = Some rp" "rp \<noteq> []" "reqLocalPath req = Some lp" "lp \<noteq> []"
    and "existsSync w (tick s) lp"
    and "map_of (data (remoteCache s)) rp = None"
    and "resolveLocal w lp (bump s) = (Inr (d, b), s')"
  shows "\<exists>m. compare w req s = (NotFound m, s') \<and> statusCode (NotFound m) = 404 \<and>
           missStatus m = ''cache-miss'' \<and> missRemotePath m = rp \<and> missLocalPath m = lp \<and>
           missLocal m =
             \<lparr>localBytes = b, localFormatted = formatBytes (mathLog w) b,
              localCachedAt = map_option timestamp d\<rparr> \<and>
           (\<forall>e. map_of (data (localCache s)) lp = Some e \<longrightarrow> d = Some e) \<and>
           (\<forall>e. d = Some e \<longrightarrow> map_of (data (localCache s')) lp = Some e \<and> b = bytes e) \<and>
           missLastModified m = getLastModified w s' lp \<and>
           (\<forall>t. missLastModified m = Some t \<longrightarrow> (t + tzOffset w) mod 3600000 = 0) \<and>
           missLastModifiedFormatted m = formatDateToLocal (tzOffset w) (missLastModified m) \<and>
           missCacheStatus m =
             \<lparr>lastFullUpdate = lastUpdated (remoteCache s),
              missUpdateInProgress = updateInProgress (remoteCache s),
              missUpdateStartTime = updateStartTime (remoteCache s)\<rparr>"
proof -
  have rc: "remoteCache s' = remoteCache s"
    using resolveLocal_remoteCache [of w lp "bump s"] assms(7) by (simp add: bump_def)
  have cmp: "compare w req s = (NotFound (cacheMiss w s' rp lp d b), s')"
    unfolding compare_resolved [OF assms(1-5)] using assms(6,7) rc by simp
  have cached: "\<forall>e. map_of (data (localCache s)) lp = Some e \<longrightarrow> d = Some e"
  proof (intro allI impI)
    fix e assume "map_of (data (localCache s)) lp = Some e"
    then have "map_of (data (localCache (bump s))) lp = Some e" by (simp add: bump_def)
    from resolveLocal_cached [OF this, of w] assms(7) show "d = Some e" by simp
  qed
  have stored: "\<forall>e. d = Some e \<longrightarrow> map_of (data (localCache s')) lp = Some e \<and> b = bytes e"
    using resolveLocal_entry [of w lp "bump s" _ b s'] assms(7) by blast
  have trunc: "\<forall>t. getLastModified w s' lp = Some t \<longrightarrow> (t + tzOffset w) mod 3600000 = 0"
    using getLastModified_truncated by blast
  show ?thesis
    unfolding cmp using cached stored trunc
    by (intro exI [of _ "cacheMiss w s' rp lp d b"])
       (simp add: cacheMiss_def localInfo_def Let_def rc)
qed

text \<open>
  Claim C9 as stated fails: \<open>/data\<close> exists and \<open>gdrive:\<close> is not cached, but the
  traversal of \<open>/data\<close> fails in \<open>addToLocalCache\<close> and again in the fallback, and the
  handler answers 500.
\<close>

theorem cache_miss_probe_failure:
  "reqRemotePath exampleRequest = Some ''gdrive:'' \<and> reqLocalPath exampleRequest = Some ''/data'' \<and>
   existsSync traversalFails (tick initialState) ''/data'' \<and>
   map_of (data (remoteCache initialState)) ''gdrive:'' = None \<and>
   fst (compare traversalFails exampleRequest initialState) = ServerError ''ENOTDIR: not a directory'' \<and>
   statusCode (fst (compare traversalFails exampleRequest initialState)) = 500"
  by (simp add: compare_def exampleRequest_def truthyString_def Let_def bump_def
      resolveLocal_def addToLocalCache_def initialState_def emptyCache_def traversalFails_def
      exampleWorld_def)

text \<open>In general: when neither \<open>addToLocalCache\<close> nor the direct computation gives a
  size, the request is answered 500 with the message of the last error.\<close>

lemma compare_unresolved:
  assumes "reqRemotePath req = Some rp" "rp \<noteq> []" "reqLocalPath req = Some lp" "lp \<noteq> []"
    and "existsSync w (tick s) lp"
    and "resolveLocal w lp (bump s) = (Inl msg, s')"
  shows "compare w req s = (ServerError msg, s')"
  unfolding compare_resolved [OF assms(1-5)] using assms(6) by simp

lemma formatDate_example: "formatDateToLocal 0 (Some 1710000000000) = Some ''09/03/24 4PM''"
  by code_simp

lemma example_resolveLocal:
  "resolveLocal exampleWorld ''/data'' (bump cachedState) =
     (Inr (Some dataEntry, 5368709120), comparedState)"
  by (simp add: cachedState_value Let_def bump_def now_def resolveLocal_def
      addToLocalCache_def emptyCache_def exampleWorld_def pushHistory_def ensureHistory_def
      has_def historyOf_def comparedState_def dataEntry_def)

theorem cache_miss_response_witness:
  "existsSync exampleWorld (tick cachedState) ''/data'' \<and>
   map_of (data (remoteCache cachedState)) ''gdrive:backup/photos'' = None \<and>
   resolveLocal exampleWorld ''/data'' (bump cachedState) =
     (Inr (Some dataEntry, 5368709120), comparedState) \<and>
   (\<exists>m. compare exampleWorld subpathRequest cachedState = (NotFound m, comparedState) \<and>
        statusCode (NotFound m) = 404 \<and>
        missLocal m =
          \<lparr>localBytes = 5368709120, localFormatted = ''5 GB'',
           localCachedAt = Some 1710000006000\<rparr> \<and>
        map_of (data (localCache comparedState)) ''/data'' = Some dataEntry \<and>
        missLastModified m = Some 1710000000000 \<and>
        missLastModifiedFormatted m = Some ''09/03/24 4PM'' \<and>
        missCacheStatus m =
          \<lparr>lastFullUpdate = Some 1710000003000, missUpdateInProgress = False,
           missUpdateStartTime = None\<rparr>)"
proof -
  have req: "reqRemotePath subpathRequest = Some ''gdrive:backup/photos''"
    "''gdrive:backup/photos'' \<noteq> []" "reqLocalPath subpathRequest = Some ''/data''"
    "''/data'' \<noteq> []"
    by (simp_all add: subpathRequest_def)
  have ex: "existsSync exampleWorld (tick cachedState) ''/data''"
    by (simp add: exampleWorld_def)
  have miss: "map_of (data (remoteCache cachedState)) ''gdrive:backup/photos'' = None"
    by (simp add: cachedState_value)
  have modified: "getLastModified exampleWorld comparedState ''/data'' = Some 1710000000000"
    by (simp add: getLastModified_def lastModifiedOf_def comparedState_def setMinutes0_def
        exampleWorld_def)
  have tz: "tzOffset exampleWorld = 0" "mathLog exampleWorld = exampleLog"
    by (simp_all add: exampleWorld_def)
  have status: "lastUpdated (remoteCache cachedState) = Some 1710000003000"
    "\<not> updateInProgress (remoteCache cachedState)"
    "updateStartTime (remoteCache cachedState) = None"
    by (simp_all add: cachedState_value)
  from cache_miss_response [OF req ex miss example_resolveLocal]
  obtain m where m: "compare exampleWorld subpathRequest cachedState = (NotFound m, comparedState)"
    "statusCode (NotFound m) = 404"
    "missLocal m = \<lparr>localBytes = 5368709120,
              localFormatted = formatBytes (mathLog exampleWorld) 5368709120,
              localCachedAt = map_option timestamp (Some dataEntry)\<rparr>"
    "\<forall>e. Some dataEntry = Some e \<longrightarrow>
        map_of (data (localCache comparedState)) ''/data'' = Some e \<and> 5368709120 = bytes e"
    "missLastModified m = getLastModified exampleWorld comparedState ''/data''"
    "missLastModifiedFormatted m =
       formatDateToLocal (tzOffset exampleWorld) (missLastModified m)"
    "missCacheStatus m =
             \<lparr>lastFullUpdate = lastUpdated (remoteCache cachedState),
              missUpdateInProgress = updateInProgress (remoteCache cachedState),
              missUpdateStartTime = updateStartTime (remoteCache cachedState)\<rparr>"
    by blast
  from m(4) have stored: "map_of (data (localCache comparedState)) ''/data'' = Some dataEntry"
    by blast
  show ?thesis
    using ex miss example_resolveLocal m(1,2) stored
    by (intro conjI exI [of _ m])
       (simp_all add: m(3,5,6,7) modified tz status formatBytes_5GB formatDate_example dataEntry_def)
qed

subsection \<open>Overlapping remote cycles\<close>

lemma storeFilled_value: "storeFilled = \<lparr>shared = cachedState, inFlight = []\<rparr>"
  by (simp add: storeFilled_def cachedState_value initialSystem_def initialState_def
      emptyCache_def run.simps step.simps afterTrigger_def resumeFrame_def
      remoteIntervalTick_def launchRemote_def remoteStart_def remoteResume_def remoteNext_def
      storeProbe_def remoteFinally_def markStarted_def getAvailableRemotes_def
      parse_exampleListing overlapWorld_def exampleWorld_def bump_def now_def truthyString_def
      orZero_def Let_def)

lemma cycleAProbing_value:
  "cycleAProbing =
     \<lparr>shared =
        \<lparr>remoteCache =
           \<lparr>data = [(''gdrive:'', \<lparr>bytes = 5368709120, count = Some 150, timestamp = 1710000002000,
            calculationDurationMs = 1000, error = None\<rparr>),
               (''s3:'', \<lparr>bytes = 5368709120, count = Some 150, timestamp = 1710000003000,
            calculationDurationMs = 1000, error = None\<rparr>)],
            lastUpdated = Some 1710000003000, updateInProgress = True,
            updateStartTime = Some 1710000003000\<rparr>,
         localCache = emptyCache, remoteCacheTemp = [(''gdrive:'', \<lparr>bytes = 5368709120, count = Some 150, timestamp = 1710000002000,
            calculationDurationMs = 1000, error = None\<rparr>),
               (''s3:'', \<lparr>bytes = 5368709120, count = Some 150, timestamp = 1710000003000,
            calculationDurationMs = 1000, error = None\<rparr>)], localCacheTemp = [],
         localSizeHistory = [], tick = 5\<rparr>,
      inFlight = [AwaitProbe ''gdrive'' [''s3''] 1710000004000 (Some \<lparr>infoError = None, infoBytes = Some 7, infoCount = Some 1\<rparr>)]\<rparr>"
  by (simp add: cycleAProbing_def storeFilled_value cachedState_value run.simps step.simps afterTrigger_def resumeFrame_def
      remoteIntervalTick_def launchRemote_def remoteStart_def remoteResume_def remoteNext_def
      storeProbe_def remoteFinally_def markStarted_def getAvailableRemotes_def
      parse_exampleListing overlapWorld_def exampleWorld_def bump_def now_def truthyString_def
      orZero_def Let_def)

lemma cycleBStarted_value:
  "cycleBStarted =
     \<lparr>shared =
        \<lparr>remoteCache =
           \<lparr>data = [(''gdrive:'', \<lparr>bytes = 5368709120, count = Some 150, timestamp = 1710000002000,
            calculationDurationMs = 1000, error = None\<rparr>),
               (''s3:'', \<lparr>bytes = 5368709120, count = Some 150, timestamp = 1710000003000,
            calculationDurationMs = 1000, error = None\<rparr>)],
            lastUpdated = Some 1710000003000, updateInProgress = True,
            updateStartTime = Some 1710000005000\<rparr>,
         localCache = emptyCache, remoteCacheTemp = [(''gdrive:'', \<lparr>bytes = 5368709120, count = Some 150, timestamp = 1710000002000,
            calculationDurationMs = 1000, error = None\<rparr>),
               (''s3:'', \<lparr>bytes = 5368709120, count = Some 150, timestamp = 1710000003000,
            calculationDurationMs = 1000, error = None\<rparr>)], localCacheTemp = [],
         localSizeHistory = [], tick = 6\<rparr>,
      inFlight = [AwaitProbe ''gdrive'' [''s3''] 1710000004000 (Some \<lparr>infoError = None, infoBytes = Some 7, infoCount = Some 1\<rparr>),
         AwaitListing (Inl ''Command failed: rclone listremotes'')]\<rparr>"
  by (simp add: cycleBStarted_def cycleAProbing_value run.simps step.simps afterTrigger_def resumeFrame_def
      remoteIntervalTick_def launchRemote_def remoteStart_def remoteResume_def remoteNext_def
      storeProbe_def remoteFinally_def markStarted_def getAvailableRemotes_def
      parse_exampleListing overlapWorld_def exampleWorld_def bump_def now_def truthyString_def
      orZero_def Let_def)

lemma cycleAWrote_value:
  "cycleAWrote =
     \<lparr>shared =
        \<lparr>remoteCache =
           \<lparr>data = [(''gdrive:'', \<lparr>bytes = 5368709120, count = Some 150, timestamp = 1710000002000,
            calculationDurationMs = 1000, error = None\<rparr>),
               (''s3:'', \<lparr>bytes = 5368709120, count = Some 150, timestamp = 1710000003000,
            calculationDurationMs = 1000, error = None\<rparr>)],
            lastUpdated = Some 1710000003000, updateInProgress = True,
            updateStartTime = Some 1710000005000\<rparr>,
         localCache = emptyCache, remoteCacheTemp = [(''gdrive:'', \<lparr>bytes = 7, count = Some 1, timestamp = 1710000006000,
            calculationDurationMs = 2000, error = None\<rparr>),
               (''s3:'', \<lparr>bytes = 5368709120, count = Some 150, timestamp = 1710000003000,
            calculationDurationMs = 1000, error = None\<rparr>)], localCacheTemp = [],
         localSizeHistory = [], tick = 7\<rparr>,
      inFlight = [AwaitProbe ''s3'' [] 1710000006000 (Some \<lparr>infoError = None, infoBytes = Some 5368709120, infoCount = Some 150\<rparr>),
         AwaitListing (Inl ''Command failed: rclone listremotes'')]\<rparr>"
  by (simp add: cycleAWrote_def cycleBStarted_value run.simps step.simps afterTrigger_def resumeFrame_def
      remoteIntervalTick_def launchRemote_def remoteStart_def remoteResume_def remoteNext_def
      storeProbe_def remoteFinally_def markStarted_def getAvailableRemotes_def
      parse_exampleListing overlapWorld_def exampleWorld_def bump_def now_def truthyString_def
      orZero_def Let_def)

lemma cycleBReturned_value:
  "cycleBReturned =
     \<lparr>shared =
        \<lparr>remoteCache =
           \<lparr>data = [(''gdrive:'', \<lparr>bytes = 7, count = Some 1, timestamp = 1710000006000,
            calculationDurationMs = 2000, error = None\<rparr>),
               (''s3:'', \<lparr>bytes = 5368709120, count = Some 150, timestamp = 1710000003000,
            calculationDurationMs = 1000, error = None\<rparr>)],
            lastUpdated = Some 1710000003000, updateInProgress = False,
            updateStartTime = None\<rparr>,
         localCache = emptyCache, remoteCacheTemp = [], localCacheTemp = [],
         localSizeHistory = [], tick = 7\<rparr>,
      inFlight = [AwaitProbe ''s3'' [] 1710000006000 (Some \<lparr>infoError = None, infoBytes = Some 5368709120, infoCount = Some 150\<rparr>)]\<rparr>"
  by (simp add: cycleBReturned_def cycleAWrote_value run.simps step.simps afterTrigger_def resumeFrame_def
      remoteIntervalTick_def launchRemote_def remoteStart_def remoteResume_def remoteNext_def
      storeProbe_def remoteFinally_def markStarted_def getAvailableRemotes_def
      parse_exampleListing overlapWorld_def exampleWorld_def bump_def now_def truthyString_def
      orZero_def Let_def)

lemma remoteTry_listing_error:
  assumes "execListRemotes w (tick s) = Inl e"
  shows "remoteTry w s = (Some e, bump (s\<lparr>remoteCacheTemp := data (remoteCache s)\<rparr>))"
  using assms by (simp add: remoteTry_def getAvailableRemotes_def)

text \<open>A cycle that runs alone and whose listing fails leaves the store as it was.\<close>

lemma listing_error_alone:
  assumes "execListRemotes w (tick s) = Inl e"
  shows "fst (remoteTry w s) = Some e \<and>
         data (remoteCache (updateRemoteCache w s)) = data (remoteCache s) \<and>
         lastUpdated (remoteCache (updateRemoteCache w s)) = lastUpdated (remoteCache s)"
  using remoteTry_listing_error [OF assms]
  by (simp add: updateRemoteCache_def remoteFinally_def bump_def)

text \<open>
  Claim C7 asks that a cycle whose listing call errors leaves the entries of the store
  as they were. That holds for a cycle that runs alone (\<open>listing_error_alone\<close>), but
  every cycle writes to the one module-level \<open>remoteCacheTemp\<close>, and the interval callback
  starts a cycle while another is in flight. Cycle A awaits its probe of \<open>gdrive:\<close> when
  cycle B starts and re-binds the temporary map; the store holds 5368709120 bytes for
  \<open>gdrive:\<close>. A's probe completes and its result, 7 bytes, is written to the map B made.
  B's listing fails, and B's \<open>finally\<close> block publishes that map: when the cycle whose
  listing failed returns, the store holds 7 bytes for \<open>gdrive:\<close>.
\<close>

theorem overlapped_listing_error_changes_store:
  "inFlight cycleBStarted =
     [AwaitProbe ''gdrive'' [''s3''] 1710000004000 (Some \<lparr>infoError = None, infoBytes = Some 7, infoCount = Some 1\<rparr>),
      AwaitListing (Inl ''Command failed: rclone listremotes'')] \<and>
   map_of (data (remoteCache (shared cycleBStarted))) ''gdrive:'' =
     Some \<lparr>bytes = 5368709120, count = Some 150, timestamp = 1710000002000,
            calculationDurationMs = 1000, error = None\<rparr> \<and>
   inFlight cycleAWrote ! 1 = AwaitListing (Inl ''Command failed: rclone listremotes'') \<and>
   cycleBReturned = step overlapWorld (Resume 1) cycleAWrote \<and>
   inFlight cycleBReturned = [AwaitProbe ''s3'' [] 1710000006000 (Some \<lparr>infoError = None, infoBytes = Some 5368709120, infoCount = Some 150\<rparr>)] \<and>
   map_of (data (remoteCache (shared cycleBReturned))) ''gdrive:'' =
     Some \<lparr>bytes = 7, count = Some 1, timestamp = 1710000006000,
            calculationDurationMs = 2000, error = None\<rparr> \<and>
   \<not> updateInProgress (remoteCache (shared cycleBReturned))"
  by (intro conjI cycleBReturned_def)
    (simp_all add: cycleBStarted_value cycleAWrote_value cycleBReturned_value)

subsection \<open>Overlapping refresh cycles\<close>

lemma interval_ticks_unconditional:
  "remoteIntervalTick w s = ([fst (launchRemote w s)], snd (launchRemote w s)) \<and>
   localIntervalTick w s = ([], runLocal w s) \<and>
   initialUpdate w s = ([fst (launchRemote w s)], runLocal w (snd (launchRemote w s)))"
  by (simp add: remoteIntervalTick_def localIntervalTick_def initialUpdate_def case_prod_beta)

lemma cacheRefresh_guard:
  assumes "updateInProgress (remoteCache s)" "updateInProgress (localCache s)"
  shows "cacheRefresh w s = ([], s)"
  using assms by (simp add: cacheRefresh_def refreshRemote_def refreshLocal_def)

text \<open>The local cycle awaits nothing that outlives its task: between two tasks the
  local store's flag is never set, so local cycles do not overlap.\<close>

lemma runLocal_flag: "\<not> updateInProgress (localCache (runLocal w s))"
  by (simp add: runLocal_def updateLocalCache_def localFinally_clears)

lemma launchRemote_localCache: "localCache (snd (launchRemote w s)) = localCache s"
  by (simp add: launchRemote_def remoteStart_def bump_def Let_def)

lemma remoteResume_localCache: "localCache (snd (remoteResume w frame s)) = localCache s"
  by (simp add: remoteResume_def remoteNext_def storeProbe_def remoteFinally_def bump_def Let_def
      split: remoteFrame.splits sum.splits list.splits option.splits)

lemma addToLocalCache_localFlag:
  "updateInProgress (localCache (snd (addToLocalCache w p s))) = updateInProgress (localCache s)"
  by (simp add: addToLocalCache_def Let_def bump_def split: sum.splits)

lemma resolveLocal_localFlag:
  "updateInProgress (localCache (snd (resolveLocal w p s))) = updateInProgress (localCache s)"
  using addToLocalCache_localFlag [of w p s]
  by (auto simp: resolveLocal_def Let_def bump_def split: option.splits prod.splits sum.splits)

lemma localCache_bump: "localCache (bump s) = localCache s"
  by (simp add: bump_def)

lemma compare_localFlag:
  "updateInProgress (localCache (snd (compare w req s))) = updateInProgress (localCache s)"
proof -
  obtain r s2 where res: "resolveLocal w (the (reqLocalPath req)) (bump s) = (r, s2)"
    by (cases "resolveLocal w (the (reqLocalPath req)) (bump s)")
  have "updateInProgress (localCache s2) = updateInProgress (localCache s)"
    using resolveLocal_localFlag [of w "the (reqLocalPath req)" "bump s"] res
    by (simp add: bump_def)
  then show ?thesis
    by (auto simp: compare_def Let_def res localCache_bump split: sum.splits option.splits)
qed

lemma step_localFlag:
  assumes "\<not> updateInProgress (localCache (shared sys))"
  shows "\<not> updateInProgress (localCache (shared (step w e sys)))"
proof (cases e)
  case Startup
  then show ?thesis by (simp add: afterTrigger_def initialUpdate_def case_prod_beta runLocal_flag)
next
  case RemoteTick
  with assms show ?thesis
    by (simp add: afterTrigger_def remoteIntervalTick_def case_prod_beta launchRemote_localCache)
next
  case LocalTick
  then show ?thesis by (simp add: afterTrigger_def localIntervalTick_def runLocal_flag)
next
  case Refresh
  with assms show ?thesis
    by (simp add: afterTrigger_def cacheRefresh_def refreshRemote_def refreshLocal_def
        case_prod_beta launchRemote_localCache runLocal_flag)
next
  case (Request req)
  with assms show ?thesis by (simp add: compare_localFlag)
next
  case (Resume k)
  obtain nxt s' where res: "remoteResume w (inFlight sys ! k) (shared sys) = (nxt, s')"
    by (cases "remoteResume w (inFlight sys ! k) (shared sys)")
  with remoteResume_localCache [of w "inFlight sys ! k" "shared sys"]
  have "localCache s' = localCache (shared sys)" by simp
  with assms Resume res show ?thesis
    by (simp add: resumeFrame_def split: option.splits)
qed

lemma local_flag_clear_between_tasks:
  assumes "reachable w sys"
  shows "\<not> updateInProgress (localCache (shared sys))"
  using assms
proof (induction rule: reachable.induct)
  case start
  show ?case by (simp add: initialSystem_def initialState_def emptyCache_def)
next
  case (task sys e)
  from task.IH show ?case by (rule step_localFlag)
qed

lemma refreshingSystem_value:
  "refreshingSystem =
     \<lparr>shared =
        initialState
          \<lparr>remoteCache := emptyCache\<lparr>updateInProgress := True,
                                       updateStartTime := Some 1710000000000\<rparr>,
           tick := 1\<rparr>,
      inFlight = [AwaitListing (Inr [''gdrive'', ''s3''])]\<rparr>"
  by (simp add: refreshingSystem_def initialSystem_def initialState_def emptyCache_def
      afterTrigger_def cacheRefresh_def refreshRemote_def refreshLocal_def launchRemote_def
      remoteStart_def markStarted_def getAvailableRemotes_def parse_exampleListing
      exampleWorld_def bump_def now_def Let_def)

text \<open>
  Claim C1 asks that every trigger starts a cycle only after checking the store's
  \<open>updateInProgress\<close>. The manual refresh does (\<open>cacheRefresh_guard\<close>); the interval
  callbacks and the start-up callback set the flag and call the cycle function whatever
  the flag was (\<open>interval_ticks_unconditional\<close>). A manual refresh starts a remote cycle
  and sets the flag; that cycle awaits its listing when the remote interval callback
  runs, and the callback calls \<open>updateRemoteCache\<close> again: two remote cycles are in
  flight, where a second manual refresh would have been skipped. The local callback makes
  no check either, but a local cycle has returned when its task ends
  (\<open>local_flag_clear_between_tasks\<close>).
\<close>

theorem interval_tick_overlaps_running_cycle:
  "fst (cacheRefresh exampleWorld initialState) = [AwaitListing (Inr [''gdrive'', ''s3''])] \<and>
   updateInProgress (remoteCache (shared refreshingSystem)) \<and>
   inFlight refreshingSystem = [AwaitListing (Inr [''gdrive'', ''s3''])] \<and>
   fst (cacheRefresh exampleWorld (shared refreshingSystem)) = [] \<and>
   fst (remoteIntervalTick exampleWorld (shared refreshingSystem)) =
     [AwaitListing (Inr [''gdrive'', ''s3''])] \<and>
   inFlight overlappingSystem =
     [AwaitListing (Inr [''gdrive'', ''s3'']), AwaitListing (Inr [''gdrive'', ''s3''])]"
  by (simp add: overlappingSystem_def refreshingSystem_value afterTrigger_def cacheRefresh_def
      refreshRemote_def refreshLocal_def remoteIntervalTick_def launchRemote_def remoteStart_def
      markStarted_def getAvailableRemotes_def parse_exampleListing exampleWorld_def
      initialState_def emptyCache_def bump_def now_def Let_def)

subsection \<open>Keys of the remote store\<close>

lemma subpathOf_split:
  assumes "CHR '':'' \<notin> set name"
  shows "subpathOf (name @ '':'' @ sub) = Some sub"
proof -
  have "dropWhile (\<lambda>c. c \<noteq> CHR '':'') (name @ CHR '':'' # sub) = CHR '':'' # sub"
    using assms by (induction name) auto
  then show ?thesis by (simp add: subpathOf_def)
qed

lemma bareRoot_name:
  assumes "CHR '':'' \<notin> set name"
  shows "bareRoot (name @ '':'')"
  using subpathOf_split [OF assms, of "[]"] by (simp add: bareRoot_def)

lemma bareRoot_form:
  assumes "bareRoot k"
  shows "\<exists>name. k = name @ '':'' \<and> CHR '':'' \<notin> set name"
proof -
  from assms have "dropWhile (\<lambda>c. c \<noteq> CHR '':'') k = '':''"
    by (auto simp: bareRoot_def subpathOf_def split: list.splits)
      (metis (mono_tags, lifting) hd_dropWhile list.sel(1) list.distinct(1))
  moreover have "k = takeWhile (\<lambda>c. c \<noteq> CHR '':'') k @ dropWhile (\<lambda>c. c \<noteq> CHR '':'') k"
    by simp
  moreover have "CHR '':'' \<notin> set (takeWhile (\<lambda>c. c \<noteq> CHR '':'') k)"
    by (auto dest: set_takeWhileD)
  ultimately show ?thesis by metis
qed

lemma bareRoot_no_subpath: "bareRoot k \<Longrightarrow> \<not> hasSubpath k"
  by (simp add: bareRoot_def hasSubpath_def)

lemma bareKeys_iff: "bareKeys m \<longleftrightarrow> (\<forall>k \<in> fst ` set m. bareRoot k)"
  by (auto simp: bareKeys_def list_all_iff)

lemma bareKeys_update:
  assumes "bareKeys m" "bareRoot k"
  shows "bareKeys (AList.update k v m)"
  using assms by (simp add: bareKeys_iff dom_update)

lemma bareKeys_Nil: "bareKeys []"
  by (simp add: bareKeys_def)

lemma storeProbe_keys:
  assumes "bareKeys (remoteCacheTemp s)" "CHR '':'' \<notin> set remote"
  shows "bareKeys (remoteCacheTemp (storeProbe w remote t sizeInfo s)) \<and>
         remoteCache (storeProbe w remote t sizeInfo s) = remoteCache s"
  using assms bareRoot_name [OF assms(2)]
  by (simp add: storeProbe_def Let_def bareKeys_update split: option.splits)

lemma remoteFinally_keys:
  assumes "bareKeys (remoteCacheTemp s)"
  shows "bareKeys (data (remoteCache (remoteFinally s))) \<and>
         bareKeys (remoteCacheTemp (remoteFinally s))"
  using assms by (simp add: remoteFinally_def bareKeys_Nil)

lemma remoteNext_keys:
  assumes "bareKeys (data (remoteCache s))" "bareKeys (remoteCacheTemp s)" "colonFree remotes"
  shows "bareKeys (data (remoteCache (snd (remoteNext w remotes s)))) \<and>
         bareKeys (remoteCacheTemp (snd (remoteNext w remotes s))) \<and>
         (\<forall>frame. fst (remoteNext w remotes s) = Some frame \<longrightarrow> colonFree (frameRemotes frame))"
proof (cases remotes)
  case Nil
  then show ?thesis
    using assms(2) by (simp add: remoteNext_def remoteFinally_def bareKeys_Nil)
next
  case (Cons remote rest)
  then show ?thesis
    using assms by (auto simp: remoteNext_def bump_def)
qed

lemma remoteResume_keys:
  assumes "bareKeys (data (remoteCache s))" "bareKeys (remoteCacheTemp s)"
    and "colonFree (frameRemotes frame)"
  shows "bareKeys (data (remoteCache (snd (remoteResume w frame s)))) \<and>
         bareKeys (remoteCacheTemp (snd (remoteResume w frame s))) \<and>
         (\<forall>next. fst (remoteResume w frame s) = Some next \<longrightarrow> colonFree (frameRemotes next))"
proof (cases frame)
  case (AwaitListing listing)
  show ?thesis
  proof (cases listing)
    case (Inl e)
    with AwaitListing remoteFinally_keys [OF assms(2)] show ?thesis
      by (simp add: remoteResume_def)
  next
    case (Inr remotes)
    with AwaitListing assms(3) have "colonFree remotes" by simp
    from remoteNext_keys [OF assms(1,2) this, of w] AwaitListing Inr show ?thesis
      by (simp add: remoteResume_def)
  qed
next
  case (AwaitProbe remote rest t sizeInfo)
  with assms(3) have r: "CHR '':'' \<notin> set remote" and rest: "colonFree rest"
    by (simp_all add: colonFree_def)
  let ?s1 = "storeProbe w remote t sizeInfo s"
  from storeProbe_keys [OF assms(2) r, of w t sizeInfo] assms(1)
  have "bareKeys (data (remoteCache ?s1))" "bareKeys (remoteCacheTemp ?s1)" by simp_all
  from remoteNext_keys [OF this rest, of w] AwaitProbe show ?thesis
    by (simp add: remoteResume_def)
qed

lemma launchRemote_keys:
  assumes "listsRemoteNames w" "bareKeys (data (remoteCache s))"
  shows "bareKeys (data (remoteCache (snd (launchRemote w s)))) \<and>
         bareKeys (remoteCacheTemp (snd (launchRemote w s))) \<and>
         colonFree (frameRemotes (fst (launchRemote w s)))"
proof -
  let ?n = "tick s"
  have frame: "colonFree (frameRemotes (AwaitListing (getAvailableRemotes w ?n)))"
  proof (cases "execListRemotes w ?n")
    case (Inl e)
    then show ?thesis by (simp add: getAvailableRemotes_def colonFree_def)
  next
    case (Inr stdout)
    with assms(1) have "\<forall>remote \<in> set (parseRemotes stdout). CHR '':'' \<notin> set remote"
      unfolding listsRemoteNames_def by blast
    with Inr show ?thesis by (simp add: getAvailableRemotes_def colonFree_def list_all_iff)
  qed
  with assms(2) show ?thesis
    by (simp add: launchRemote_def remoteStart_def markStarted_def bump_def Let_def)
qed

lemma markError_remote:
  "remoteCache (markError p msg t s) = remoteCache s \<and>
   remoteCacheTemp (markError p msg t s) = remoteCacheTemp s"
  by (simp add: markError_def split: option.splits)

lemma localLoop_remote:
  "remoteCache (localLoop w dirs s) = remoteCache s \<and>
   remoteCacheTemp (localLoop w dirs s) = remoteCacheTemp s"
proof (induction dirs arbitrary: s)
  case Nil
  show ?case by simp
next
  case (Cons localDir rest)
  have step: "\<exists>s'. localLoop w (localDir # rest) s = localLoop w rest s' \<and>
                  remoteCache s' = remoteCache s \<and> remoteCacheTemp s' = remoteCacheTemp s"
  proof (cases "existsSync w (tick s) localDir")
    case False
    then show ?thesis
      by (intro exI [of _ "markError localDir ''Directory no longer exists''
             (now w (bump s)) (bump s)"])
         (simp add: Let_def markError_remote, simp add: bump_def)
  next
    case True
    show ?thesis
    proof (cases "getDirectorySize w (tick (bump s)) localDir")
      case (Inl msg)
      with True show ?thesis
        by (intro exI [of _ "markError localDir msg (now w (bump (bump s))) (bump (bump s))"])
           (simp add: Let_def markError_remote, simp add: bump_def)
    next
      case (Inr sizeBytes)
      define s3 where "s3 = (bump (bump s))\<lparr>localCacheTemp :=
          AList.update localDir
            \<lparr>bytes = sizeBytes, count = None, timestamp = now w (bump (bump s)),
             calculationDurationMs = now w (bump (bump s)) - now w s, error = None\<rparr>
            (localCacheTemp (bump (bump s)))\<rparr>"
      define s4 where "s4 = s3\<lparr>localSizeHistory :=
          cycleHistory localDir (now w (bump (bump s))) sizeBytes (localSizeHistory s3)\<rparr>"
      from True Inr have "localLoop w (localDir # rest) s = localLoop w rest s4"
        by (simp add: Let_def s4_def s3_def)
      moreover have "remoteCache s4 = remoteCache s" "remoteCacheTemp s4 = remoteCacheTemp s"
        by (simp_all add: s4_def s3_def bump_def)
      ultimately show ?thesis by blast
    qed
  qed
  then obtain s' where "localLoop w (localDir # rest) s = localLoop w rest s'"
    "remoteCache s' = remoteCache s" "remoteCacheTemp s' = remoteCacheTemp s" by blast
  with Cons.IH [of s'] show ?case by simp
qed

lemma updateLocalCache_remote:
  "remoteCache (updateLocalCache w s) = remoteCache s \<and>
   remoteCacheTemp (updateLocalCache w s) = remoteCacheTemp s"
  by (simp add: updateLocalCache_def localFinally_def localTry_def Let_def localLoop_remote)

lemma runLocal_remote:
  "remoteCache (runLocal w s) = remoteCache s \<and>
   remoteCacheTemp (runLocal w s) = remoteCacheTemp s"
  by (simp add: runLocal_def updateLocalCache_remote)

lemma refreshLocal_remote:
  "remoteCache (refreshLocal w s) = remoteCache s \<and>
   remoteCacheTemp (refreshLocal w s) = remoteCacheTemp s"
  by (simp add: refreshLocal_def runLocal_remote)

lemma remoteCache_bump: "remoteCache (bump s) = remoteCache s"
  by (simp add: bump_def)

lemma remoteCacheTemp_bump: "remoteCacheTemp (bump s) = remoteCacheTemp s"
  by (simp add: bump_def)

lemma addToLocalCache_remoteCacheTemp:
  "remoteCacheTemp (snd (addToLocalCache w p s)) = remoteCacheTemp s"
  by (simp add: addToLocalCache_def Let_def bump_def split: sum.splits)

lemma resolveLocal_remoteCacheTemp:
  "remoteCacheTemp (snd (resolveLocal w p s)) = remoteCacheTemp s"
  using addToLocalCache_remoteCacheTemp [of w p s]
  by (auto simp: resolveLocal_def Let_def bump_def split: option.splits prod.splits sum.splits)

lemma compare_remote:
  "remoteCache (snd (compare w req s)) = remoteCache s \<and>
   remoteCacheTemp (snd (compare w req s)) = remoteCacheTemp s"
proof -
  obtain r s2 where res: "resolveLocal w (the (reqLocalPath req)) (bump s) = (r, s2)"
    by (cases "resolveLocal w (the (reqLocalPath req)) (bump s)")
  have "remoteCache s2 = remoteCache s" "remoteCacheTemp s2 = remoteCacheTemp s"
    using resolveLocal_remoteCache [of w "the (reqLocalPath req)" "bump s"]
      resolveLocal_remoteCacheTemp [of w "the (reqLocalPath req)" "bump s"] res
    by (simp_all add: bump_def)
  then show ?thesis
    by (auto simp: compare_def Let_def res remoteCache_bump remoteCacheTemp_bump
        split: sum.splits option.splits)
qed

lemma trigger_keys:
  assumes "listsRemoteNames w" "bareKeys (data (remoteCache s))" "bareKeys (remoteCacheTemp s)"
  shows "bareKeys (data (remoteCache (snd (initialUpdate w s)))) \<and>
         bareKeys (remoteCacheTemp (snd (initialUpdate w s))) \<and>
         list_all (\<lambda>frame. colonFree (frameRemotes frame)) (fst (initialUpdate w s))"
    and "bareKeys (data (remoteCache (snd (remoteIntervalTick w s)))) \<and>
         bareKeys (remoteCacheTemp (snd (remoteIntervalTick w s))) \<and>
         list_all (\<lambda>frame. colonFree (frameRemotes frame)) (fst (remoteIntervalTick w s))"
    and "bareKeys (data (remoteCache (snd (localIntervalTick w s)))) \<and>
         bareKeys (remoteCacheTemp (snd (localIntervalTick w s))) \<and>
         list_all (\<lambda>frame. colonFree (frameRemotes frame)) (fst (localIntervalTick w s))"
    and "bareKeys (data (remoteCache (snd (cacheRefresh w s)))) \<and>
         bareKeys (remoteCacheTemp (snd (cacheRefresh w s))) \<and>
         list_all (\<lambda>frame. colonFree (frameRemotes frame)) (fst (cacheRefresh w s))"
proof -
  note launch = launchRemote_keys [OF assms(1,2)]
  show "bareKeys (data (remoteCache (snd (initialUpdate w s)))) \<and>
         bareKeys (remoteCacheTemp (snd (initialUpdate w s))) \<and>
         list_all (\<lambda>frame. colonFree (frameRemotes frame)) (fst (initialUpdate w s))"
    using launch by (simp add: initialUpdate_def runLocal_remote case_prod_beta)
  show "bareKeys (data (remoteCache (snd (remoteIntervalTick w s)))) \<and>
         bareKeys (remoteCacheTemp (snd (remoteIntervalTick w s))) \<and>
         list_all (\<lambda>frame. colonFree (frameRemotes frame)) (fst (remoteIntervalTick w s))"
    using launch by (simp add: remoteIntervalTick_def case_prod_beta)
  show "bareKeys (data (remoteCache (snd (localIntervalTick w s)))) \<and>
         bareKeys (remoteCacheTemp (snd (localIntervalTick w s))) \<and>
         list_all (\<lambda>frame. colonFree (frameRemotes frame)) (fst (localIntervalTick w s))"
    using assms(2,3) by (simp add: localIntervalTick_def runLocal_remote)
  show "bareKeys (data (remoteCache (snd (cacheRefresh w s)))) \<and>
         bareKeys (remoteCacheTemp (snd (cacheRefresh w s))) \<and>
         list_all (\<lambda>frame. colonFree (frameRemotes frame)) (fst (cacheRefresh w s))"
    using launch assms(2,3)
    by (simp add: cacheRefresh_def refreshRemote_def refreshLocal_remote case_prod_beta)
qed

lemma afterTrigger_keys:
  assumes "remoteKeysInv sys"
    and "bareKeys (data (remoteCache (snd r))) \<and> bareKeys (remoteCacheTemp (snd r)) \<and>
         list_all (\<lambda>frame. colonFree (frameRemotes frame)) (fst r)"
  shows "remoteKeysInv (afterTrigger r sys)"
  using assms by (simp add: remoteKeysInv_def afterTrigger_def)

lemma resumeFrame_keys:
  assumes "remoteKeysInv sys"
  shows "remoteKeysInv (resumeFrame w k sys)"
proof (cases "k < length (inFlight sys)")
  case False
  with assms show ?thesis by (simp add: resumeFrame_def)
next
  case True
  from assms have st: "bareKeys (data (remoteCache (shared sys)))"
    "bareKeys (remoteCacheTemp (shared sys))"
    and frames: "\<forall>frame \<in> set (inFlight sys). colonFree (frameRemotes frame)"
    by (simp_all add: remoteKeysInv_def list_all_iff)
  from frames True have "colonFree (frameRemotes (inFlight sys ! k))" by simp
  note keys = remoteResume_keys [OF st this, of w]
  obtain nxt s' where res: "remoteResume w (inFlight sys ! k) (shared sys) = (nxt, s')"
    by (cases "remoteResume w (inFlight sys ! k) (shared sys)")
  show ?thesis
  proof (cases nxt)
    case None
    have "\<forall>frame \<in> set (take k (inFlight sys) @ drop (Suc k) (inFlight sys)).
            colonFree (frameRemotes frame)"
      using frames by (auto dest: in_set_takeD in_set_dropD)
    with keys res None True show ?thesis
      by (simp add: resumeFrame_def remoteKeysInv_def list_all_iff)
  next
    case (Some frame)
    with keys res have "colonFree (frameRemotes frame)" by simp
    with frames have "\<forall>f \<in> set ((inFlight sys)[k := frame]). colonFree (frameRemotes f)"
      by (auto dest: set_update_subset_insert [THEN subsetD])
    with keys res Some True show ?thesis
      by (simp add: resumeFrame_def remoteKeysInv_def list_all_iff)
  qed
qed

lemma step_keys:
  assumes "listsRemoteNames w" "remoteKeysInv sys"
  shows "remoteKeysInv (step w e sys)"
proof -
  from assms(2) have st: "bareKeys (data (remoteCache (shared sys)))"
    "bareKeys (remoteCacheTemp (shared sys))"
    by (simp_all add: remoteKeysInv_def)
  note trig = trigger_keys [OF assms(1) st]
  show ?thesis
  proof (cases e)
    case Startup
    with afterTrigger_keys [OF assms(2) trig(1)] show ?thesis by simp
  next
    case RemoteTick
    with afterTrigger_keys [OF assms(2) trig(2)] show ?thesis by simp
  next
    case LocalTick
    with afterTrigger_keys [OF assms(2) trig(3)] show ?thesis by simp
  next
    case Refresh
    with afterTrigger_keys [OF assms(2) trig(4)] show ?thesis by simp
  next
    case (Request req)
    with assms(2) show ?thesis by (simp add: remoteKeysInv_def compare_remote)
  next
    case (Resume k)
    with resumeFrame_keys [OF assms(2)] show ?thesis by simp
  qed
qed

lemma reachable_keys:
  assumes "reachable w sys" "listsRemoteNames w"
  shows "remoteKeysInv sys"
  using assms(1)
proof (induction rule: reachable.induct)
  case start
  show ?case
    by (simp add: remoteKeysInv_def initialSystem_def initialState_def emptyCache_def bareKeys_Nil)
next
  case (task sys e)
  then show ?case using step_keys [OF assms(2)] by blast
qed

lemma reachable_run:
  assumes "reachable w sys"
  shows "reachable w (run w es sys)"
  using assms by (induction es arbitrary: sys) (simp_all add: reachable.task)

lemma statusCode_200: "statusCode r = 200 \<Longrightarrow> \<exists>c. r = Ok c"
  by (cases r) simp_all

lemma statusCode_cases:
  "statusCode r = 400 \<or> statusCode r = 404 \<or> statusCode r = 200 \<or> statusCode r = 500"
  by (cases r) simp_all

text \<open>
  Claim C4, amended. In every state the service reaches, with cycles, timers and
  requests interleaved at the awaits, in a world whose listing command prints remote
  names without a colon, every key of the remote store is a remote name followed by one
  colon, with an empty subpath. So a remote path with a non-empty subpath is not a key of
  the store: its lookup misses, the request is never answered with the full comparison,
  and it is answered with the cache-miss payload whenever the handler gets as far as the
  lookup, that is when the local path is given, exists and its size is resolved;
  otherwise it is answered 400 or 500.
\<close>

theorem remote_keys_bare_roots:
  assumes "reachable w sys" "listsRemoteNames w"
  shows "(\<forall>k \<in> fst ` set (data (remoteCache (shared sys))).
            bareRoot k \<and> (\<exists>name. k = name @ '':'' \<and> CHR '':'' \<notin> set name)) \<and>
         (\<forall>rp. hasSubpath rp \<longrightarrow> map_of (data (remoteCache (shared sys))) rp = None) \<and>
         (\<forall>req rp. reqRemotePath req = Some rp \<and> hasSubpath rp \<longrightarrow>
            statusCode (fst (compare w req (shared sys))) \<noteq> 200 \<and>
            (statusCode (fst (compare w req (shared sys))) = 400 \<or>
             statusCode (fst (compare w req (shared sys))) = 404 \<or>
             statusCode (fst (compare w req (shared sys))) = 500) \<and>
            (\<forall>lp d b s'. reqLocalPath req = Some lp \<and> lp \<noteq> [] \<and>
               existsSync w (tick (shared sys)) lp \<and>
               resolveLocal w lp (bump (shared sys)) = (Inr (d, b), s') \<longrightarrow>
               compare w req (shared sys) = (NotFound (cacheMiss w s' rp lp d b), s')))"
proof -
  define s where "s = shared sys"
  from reachable_keys [OF assms] have bare: "\<forall>k \<in> fst ` set (data (remoteCache s)). bareRoot k"
    by (simp add: remoteKeysInv_def bareKeys_iff s_def)
  have keys: "\<forall>k \<in> fst ` set (data (remoteCache s)).
            bareRoot k \<and> (\<exists>name. k = name @ '':'' \<and> CHR '':'' \<notin> set name)"
    using bare bareRoot_form by blast
  have miss: "map_of (data (remoteCache s)) rp = None" if "hasSubpath rp" for rp
  proof -
    from that bare bareRoot_no_subpath have "rp \<notin> fst ` set (data (remoteCache s))" by blast
    then show ?thesis by (simp add: map_of_eq_None_iff)
  qed
  have resp: "statusCode (fst (compare w req s)) \<noteq> 200 \<and>
            (statusCode (fst (compare w req s)) = 400 \<or>
             statusCode (fst (compare w req s)) = 404 \<or>
             statusCode (fst (compare w req s)) = 500) \<and>
            (\<forall>lp d b s'. reqLocalPath req = Some lp \<and> lp \<noteq> [] \<and> existsSync w (tick s) lp \<and>
               resolveLocal w lp (bump s) = (Inr (d, b), s') \<longrightarrow>
               compare w req s = (NotFound (cacheMiss w s' rp lp d b), s'))"
    if req: "reqRemotePath req = Some rp" and sub: "hasSubpath rp" for req rp
  proof (intro conjI allI impI)
    show no200: "statusCode (fst (compare w req s)) \<noteq> 200"
    proof
      assume "statusCode (fst (compare w req s)) = 200"
      then obtain c where "fst (compare w req s) = Ok c" using statusCode_200 by blast
      from compare_Ok [OF this] req miss [OF sub] show False by auto
    qed
    with statusCode_cases [of "fst (compare w req s)"]
    show "statusCode (fst (compare w req s)) = 400 \<or>
          statusCode (fst (compare w req s)) = 404 \<or>
          statusCode (fst (compare w req s)) = 500" by blast
  next
    fix lp d b s'
    assume a: "reqLocalPath req = Some lp \<and> lp \<noteq> [] \<and> existsSync w (tick s) lp \<and>
               resolveLocal w lp (bump s) = (Inr (d, b), s')"
    from sub have ne: "rp \<noteq> []" by (auto simp: hasSubpath_def subpathOf_def)
    have rc: "remoteCache s' = remoteCache s"
      using resolveLocal_remoteCache [of w lp "bump s"] a by (simp add: bump_def)
    from a have "compare w req s =
          (case resolveLocal w lp (bump s) of
             (Inl msg, s2) \<Rightarrow> (ServerError msg, s2)
           | (Inr (d, b), s2) \<Rightarrow>
               (case map_of (data (remoteCache s2)) rp of
                  None \<Rightarrow> (NotFound (cacheMiss w s2 rp lp d b), s2)
                | Some e \<Rightarrow> (Ok (comparison w s2 rp lp e d b), s2)))"
      by (intro compare_resolved req ne) simp_all
    with a rc miss [OF sub]
    show "compare w req s = (NotFound (cacheMiss w s' rp lp d b), s')" by simp
  qed
  show ?thesis
    unfolding s_def [symmetric]
  proof (intro conjI)
    show "\<forall>k \<in> fst ` set (data (remoteCache s)).
            bareRoot k \<and> (\<exists>name. k = name @ '':'' \<and> CHR '':'' \<notin> set name)"
      by (rule keys)
    show "\<forall>rp. hasSubpath rp \<longrightarrow> map_of (data (remoteCache s)) rp = None"
      using miss by blast
    show "\<forall>req rp. reqRemotePath req = Some rp \<and> hasSubpath rp \<longrightarrow>
            statusCode (fst (compare w req s)) \<noteq> 200 \<and>
            (statusCode (fst (compare w req s)) = 400 \<or>
             statusCode (fst (compare w req s)) = 404 \<or>
             statusCode (fst (compare w req s)) = 500) \<and>
            (\<forall>lp d b s'. reqLocalPath req = Some lp \<and> lp \<noteq> [] \<and> existsSync w (tick s) lp \<and>
               resolveLocal w lp (bump s) = (Inr (d, b), s') \<longrightarrow>
               compare w req s = (NotFound (cacheMiss w s' rp lp d b), s'))"
      using resp by (intro allI impI) (elim conjE, assumption)
  qed
qed

lemma listsRemoteNames_overlapWorld: "listsRemoteNames overlapWorld"
  by (auto simp: listsRemoteNames_def overlapWorld_def exampleWorld_def parse_exampleListing
      split: if_splits)

lemma reachable_cycleBStarted: "reachable overlapWorld cycleBStarted"
  unfolding cycleBStarted_def cycleAProbing_def storeFilled_def
  by (intro reachable.task reachable_run reachable.start)

lemma cycleBStarted_resolveLocal:
  "\<exists>d b s'. resolveLocal overlapWorld ''/data'' (bump (shared cycleBStarted)) = (Inr (d, b), s')"
  by (simp add: cycleBStarted_value Let_def bump_def now_def resolveLocal_def
      addToLocalCache_def emptyCache_def overlapWorld_def exampleWorld_def)

theorem remote_keys_bare_roots_witness:
  "reachable overlapWorld cycleBStarted \<and> listsRemoteNames overlapWorld \<and>
   length (inFlight cycleBStarted) = 2 \<and>
   map fst (data (remoteCache (shared cycleBStarted))) = [''gdrive:'', ''s3:''] \<and>
   bareRoot ''gdrive:'' \<and> bareRoot ''s3:'' \<and>
   reqRemotePath subpathRequest = Some ''gdrive:backup/photos'' \<and>
   hasSubpath ''gdrive:backup/photos'' \<and>
   map_of (data (remoteCache (shared cycleBStarted))) ''gdrive:backup/photos'' = None \<and>
   statusCode (fst (compare overlapWorld subpathRequest (shared cycleBStarted))) = 404"
proof -
  note reach = reachable_cycleBStarted and names = listsRemoteNames_overlapWorld
  have frames: "length (inFlight cycleBStarted) = 2"
    by (simp add: cycleBStarted_value)
  have keys: "map fst (data (remoteCache (shared cycleBStarted))) = [''gdrive:'', ''s3:'']"
    by (simp add: cycleBStarted_value)
  have req: "reqRemotePath subpathRequest = Some ''gdrive:backup/photos''"
    "reqLocalPath subpathRequest = Some ''/data''"
    by (simp_all add: subpathRequest_def)
  have sub: "hasSubpath ''gdrive:backup/photos''"
    by (simp add: hasSubpath_def subpathOf_def)
  have ex: "existsSync overlapWorld (tick (shared cycleBStarted)) ''/data''"
    by (simp add: overlapWorld_def exampleWorld_def)
  from cycleBStarted_resolveLocal obtain d b s' where
    res: "resolveLocal overlapWorld ''/data'' (bump (shared cycleBStarted)) = (Inr (d, b), s')"
    by blast
  note inv = remote_keys_bare_roots [OF reach names]
  from inv keys have bare: "bareRoot ''gdrive:''" "bareRoot ''s3:''"
    by (metis (no_types, lifting) list.set_intros(1,2) list.set_map)+
  from inv sub
  have miss: "map_of (data (remoteCache (shared cycleBStarted))) ''gdrive:backup/photos'' = None"
    by blast
  from inv req(1) sub have
    "\<forall>lp d b s'. reqLocalPath subpathRequest = Some lp \<and> lp \<noteq> [] \<and>
        existsSync overlapWorld (tick (shared cycleBStarted)) lp \<and>
        resolveLocal overlapWorld lp (bump (shared cycleBStarted)) = (Inr (d, b), s') \<longrightarrow>
        compare overlapWorld subpathRequest (shared cycleBStarted) =
          (NotFound (cacheMiss overlapWorld s' ''gdrive:backup/photos'' lp d b), s')"
    by blast
  with req(2) ex res have
    "compare overlapWorld subpathRequest (shared cycleBStarted) =
       (NotFound (cacheMiss overlapWorld s' ''gdrive:backup/photos'' ''/data'' d b), s')"
    by blast
  then have code: "statusCode (fst (compare overlapWorld subpathRequest (shared cycleBStarted))) = 404"
    by simp
  from reach names frames keys bare req(1) sub miss code show ?thesis by simp
qed

text \<open>
  Claim C4 as stated fails: a request with a subpath in its remote path does not always
  take the cache-miss path. When \<open>/data\<close> exists and cannot be measured the handler
  answers 500, and when the local path is missing it answers 400, in both cases before
  the lookup in the remote store.
\<close>

theorem subpath_request_without_lookup:
  "hasSubpath ''gdrive:backup/photos'' \<and>
   reqRemotePath subpathRequest = Some ''gdrive:backup/photos'' \<and>
   existsSync traversalFails (tick (shared initialSystem)) ''/data'' \<and>
   fst (compare traversalFails subpathRequest (shared initialSystem)) =
     ServerError ''ENOTDIR: not a directory'' \<and>
   statusCode (fst (compare traversalFails subpathRequest (shared initialSystem))) = 500 \<and>
   fst (compare exampleWorld (subpathRequest\<lparr>reqLocalPath := None\<rparr>) (shared initialSystem)) =
     BadRequest ''Both remotePath and localPath are required'' \<and>
   statusCode (fst (compare exampleWorld (subpathRequest\<lparr>reqLocalPath := None\<rparr>)
     (shared initialSystem))) = 400"
  by (simp add: hasSubpath_def subpathOf_def compare_def subpathRequest_def truthyString_def
      Let_def bump_def resolveLocal_def addToLocalCache_def initialSystem_def initialState_def
      emptyCache_def traversalFails_def exampleWorld_def)

subsection \<open>History samples\<close>

lemma historyOf_ensure: "historyOf (ensureHistory p h) p = historyOf h p"
  by (simp add: historyOf_def ensureHistory_def has_def update_conv' split: option.splits)

lemma historyOf_update: "historyOf (AList.update p x h) p = x"
  by (simp add: historyOf_def update_conv')

lemma pushHistory_record: "historyOf (pushHistory p x h) p = historyOf h p @ [x]"
  by (simp add: pushHistory_def Let_def historyOf_update historyOf_ensure)

lemma cycleHistory_record:
  "historyOf (cycleHistory p t b h) p =
     (if historyOf h p = [] \<or> sampleBytes (last (historyOf h p)) \<noteq> b
      then filter (\<lambda>entry. sampleTimestamp entry > t - thirtyDays)
             (historyOf h p @ [\<lparr>sampleTimestamp = t, sampleBytes = b\<rparr>])
      else historyOf h p)"
  by (simp add: cycleHistory_def Let_def historyOf_update historyOf_ensure)

lemma cycleHistory_dedup:
  assumes "historyOf h p \<noteq> []" "sampleBytes (last (historyOf h p)) = b"
  shows "historyOf (cycleHistory p t b h) p = historyOf h p"
  using assms by (simp add: cycleHistory_record)

lemma cycleHistory_prune:
  assumes "historyOf h p = [] \<or> sampleBytes (last (historyOf h p)) \<noteq> b"
    and "entry \<in> set (historyOf (cycleHistory p t b h) p)"
  shows "t - thirtyDays < sampleTimestamp entry"
  using assms by (auto simp: cycleHistory_record split: if_splits)

lemma afterFirstRequest_value:
  "afterFirstRequest =
     initialState
       \<lparr>localSizeHistory :=
          [(''/data'', [\<lparr>sampleTimestamp = 1710000004000, sampleBytes = 100\<rparr>])],
        tick := 4\<rparr>"
  by (simp add: afterFirstRequest_def compare_def exampleRequest_def truthyString_def Let_def
      bump_def now_def resolveLocal_def addToLocalCache_def initialState_def emptyCache_def
      slowWorld_def traversalFailsOnce_def exampleWorld_def pushHistory_def ensureHistory_def
      has_def historyOf_def)

text \<open>
  Claim C3 asks that every append compares with the last sample and prunes. The refresh
  cycle does (\<open>cycleHistory_dedup\<close>, \<open>cycleHistory_prune\<close>); \<open>addToLocalCache\<close> and the
  fallback of the comparison handler push unconditionally (\<open>pushHistory_record\<close>). Two
  requests for \<open>/data\<close>: the first falls back to the direct computation and records 100
  bytes without caching the path; the second, forty days later, inserts the path and
  records 100 bytes again. The history then holds two consecutive samples with the same
  bytes, the first of them more than thirty days older than the newest.
\<close>

theorem on_demand_push_keeps_duplicates:
  "map_of (data (localCache afterFirstRequest)) ''/data'' = None \<and>
   historyOf (localSizeHistory afterFirstRequest) ''/data'' =
     [\<lparr>sampleTimestamp = 1710000004000, sampleBytes = 100\<rparr>] \<and>
   historyOf (localSizeHistory afterSecondRequest) ''/data'' =
     [\<lparr>sampleTimestamp = 1710000004000, sampleBytes = 100\<rparr>,
      \<lparr>sampleTimestamp = 1713456007000, sampleBytes = 100\<rparr>] \<and>
   1710000004000 < 1713456007000 - thirtyDays"
  by (simp add: afterSecondRequest_def afterFirstRequest_value compare_def exampleRequest_def
      truthyString_def Let_def bump_def now_def resolveLocal_def addToLocalCache_def
      initialState_def emptyCache_def slowWorld_def traversalFailsOnce_def exampleWorld_def
      pushHistory_def ensureHistory_def has_def historyOf_def thirtyDays_def)

subsection \<open>The local refresh cycle\<close>

lemma trackedState_value:
  "trackedState =
     initialState
       \<lparr>localCache := emptyCache\<lparr>data :=
          [(''/data'', \<lparr>bytes = 5368709120, count = None, timestamp = 1710000003000,
                        calculationDurationMs = 1000, error = None\<rparr>)]\<rparr>,
        localSizeHistory :=
          [(''/data'', [\<lparr>sampleTimestamp = 1710000003000, sampleBytes = 5368709120\<rparr>])],
        tick := 3\<rparr>"
  by (simp add: trackedState_def compare_def exampleRequest_def truthyString_def Let_def
      bump_def now_def resolveLocal_def addToLocalCache_def initialState_def emptyCache_def
      directoryVanishes_def exampleWorld_def pushHistory_def ensureHistory_def has_def
      historyOf_def)

text \<open>
  Claim C2 asks that a tracked path without a successful probe keeps its entry when the
  cycle publishes. \<open>updateLocalCache\<close> never copies the store into \<open>localCacheTemp\<close>
  (\<open>updateRemoteCache\<close> does, for its store): the temporary map is empty when the cycle
  starts. Here \<open>/data\<close> is tracked and has vanished when the cycle runs; the entry is
  marked in the live store, and the \<open>finally\<close> block then replaces the store by the empty
  temporary map.
\<close>

theorem local_cycle_drops_unprobed_entry:
  "map_of (data (localCache trackedState)) ''/data'' =
     Some \<lparr>bytes = 5368709120, count = None, timestamp = 1710000003000,
           calculationDurationMs = 1000, error = None\<rparr> \<and>
   localCacheTemp trackedState = [] \<and>
   \<not> existsSync directoryVanishes (tick trackedState) ''/data'' \<and>
   data (localCache (updateLocalCache directoryVanishes trackedState)) = [] \<and>
   map_of (data (localCache (updateLocalCache directoryVanishes trackedState))) ''/data'' = None"
  by (simp add: trackedState_value updateLocalCache_def localTry_def localFinally_def Let_def
      bump_def now_def markError_def initialState_def emptyCache_def directoryVanishes_def
      exampleWorld_def)

end
